theory Spec2Isabelle
  imports Main "HOL-Library.AList" "HOL-Library.Sublist"
begin

section \<open>The signaling server of src/services/webRTC.js\<close>

text \<open>
  The second half of the source file is the WebSocket signaling server: four process-wide
  JavaScript \<open>Map\<close>s (\<open>clients\<close>, \<open>users\<close>, \<open>chatRooms\<close>, \<open>activeCalls\<close>), three
  delivery helpers and one handler per envelope type. The theory embeds that half.

  Conventions of the embedding.
  \<^item> A JavaScript \<open>Map\<close> is an association list in insertion order: \<open>get\<close> is
    \<open>map_of\<close>, \<open>set\<close> is \<open>AList.update\<close> (an existing key keeps its position, a new
    key goes to the end), \<open>delete\<close> is \<open>AList.delete\<close>.
  \<^item> \<open>username\<close> and \<open>avatar\<close>, the fields \<open>handleUserRegister\<close> reads, are any JSON
    value or absent (\<open>undefined\<close>): \<open>json option\<close>. The handlers compare usernames with
    \<open>===\<close>, put them into template literals and test the avatar for truth, and all
    three depend on the kind of value. Every other envelope field is a JSON string or
    absent: \<open>string option\<close>; for those fields other JSON values are outside the model.
  \<^item> Objects that the source shares by reference live in a store: user objects
    (shared by \<open>users\<close> and \<open>clients\<close>) in \<open>user_heap\<close>, participant arrays (shared
    by a room and the calls started in it) in \<open>array_heap\<close>. A reference is an index;
    allocation appends.
  \<^item> \<open>clients.get(id).ws\<close> is the socket of the connection whose \<open>clientId\<close> is
    \<open>id\<close>: the source stores it only from that connection's own closure. So a socket is
    addressed by its connection id: \<open>readyState s id\<close> is its ready state (\<open>None\<close>:
    no such connection was ever accepted) and \<open>outbox s id\<close> is the sequence of
    \<open>ws.send\<close> calls made on it, oldest first.
  \<^item> \<open>generateId()\<close> and \<open>new Date().toISOString()\<close> are inputs of the handler
    that calls them (\<open>gid\<close>, \<open>now\<close>); one handler run reads one clock value.
  \<^item> A handler dereferences only references it has read from a \<open>Map\<close>. For the
    references of \<open>users\<close> and of the rooms, on which the theorems depend, \<open>refs_ok\<close>
    says that they are allocated, and it holds in every reachable state.
\<close>

subsection \<open>Data\<close>

datatype ready_state = CONNECTING | OPEN | CLOSING | CLOSED

datatype call_status = Ringing | Active | Rejected | Ended

text \<open>
  A value as \<open>JSON.parse\<close> returns it. A number is held by its decimal form
  \<open>String(x)\<close>, which determines the double up to \<open>===\<close> (\<open>0\<close> and \<open>-0\<close> both print as
  \<open>0\<close>, and JSON has no \<open>NaN\<close>). An object is the list of its own properties.
\<close>

datatype json =
    JNull
  | JBool bool
  | JNum string
  | JStr string
  | JArr "json list"
  | JObj "(string \<times> json) list"

record user =
  u_id :: string
  u_username :: "json option"
  u_avatar :: json
  u_status :: "string option"
  u_lastSeen :: string

record message =
  m_id :: string
  m_from :: string
  m_to :: "string option"
  m_content :: "string option"
  m_messageType :: string
  m_timestamp :: string
  m_roomId :: "string option"

text \<open>\<open>r_participants\<close> and \<open>c_participants\<close> are references into \<open>array_heap\<close>.\<close>

record room =
  r_id :: "string option"
  r_name :: string
  r_participants :: nat
  r_messages :: "message list"
  r_createdAt :: string

record call =
  c_id :: string
  c_initiator :: string
  c_participants :: nat
  c_callType :: "string option"
  c_status :: call_status
  c_startTime :: string
  c_roomId :: "string option"
  c_answeredBy :: "string option"
  c_answerTime :: "string option"
  c_rejectedBy :: "string option"
  c_endTime :: "string option"
  c_endedBy :: "string option"

text \<open>The parsed envelope: \<open>e_type\<close> and the fields the handlers destructure;
  \<open>e_payload\<close> stands for everything else (the opaque signaling payload).\<close>

record envelope =
  e_type :: "string option"
  e_username :: "json option"
  e_avatar :: "json option"
  e_to :: "string option"
  e_content :: "string option"
  e_messageType :: "string option"
  e_roomId :: "string option"
  e_roomName :: "string option"
  e_callType :: "string option"
  e_callId :: "string option"
  e_status :: "string option"
  e_payload :: string

text \<open>
  What \<open>JSON.stringify\<close> puts on the wire. A call or a room is serialised with the
  contents its participant array has at that moment, so an event carries the record
  together with that list.
\<close>

datatype event =
    CONNECTED string string
  | ERROR "string option" string
  | USER_REGISTERED user
  | USER_JOINED user
  | USER_LOGGED_IN user
  | USER_STATUS_UPDATE string "string option" "string option"
  | USERS_LIST "user list"
  | NEW_MESSAGE message
  | MESSAGE_SENT message
  | ROOM_JOINED room "string option list"
  | USER_JOINED_ROOM string "json option"
  | USER_LEFT_ROOM string
  | INCOMING_CALL call "string option list"
  | CALL_INITIATED call "string option list"
  | CALL_ANSWERED call "string option list"
  | CALL_REJECTED call "string option list"
  | CALL_ENDED call "string option list"
  | RELAY envelope string
  | TYPING envelope string "json option"

record state =
  clients :: "(string \<times> nat) list"
  users :: "(string \<times> nat) list"
  chatRooms :: "(string option \<times> room) list"
  activeCalls :: "(string \<times> call) list"
  user_heap :: "user list"
  array_heap :: "string option list list"
  readyState :: "string \<Rightarrow> ready_state option"
  outbox :: "string \<Rightarrow> event list"

definition init_state :: state where
  "init_state = \<lparr> clients = [], users = [], chatRooms = [], activeCalls = [],
     user_heap = [], array_heap = [], readyState = (\<lambda>_. None), outbox = (\<lambda>_. []) \<rparr>"

subsection \<open>JavaScript idioms\<close>

text \<open>\<open>if (x)\<close> on a string or \<open>undefined\<close>: the empty string is falsy too.\<close>

fun truthy :: "string option \<Rightarrow> bool" where
  "truthy None = False"
| "truthy (Some v) = (v \<noteq> [])"

text \<open>A string or \<open>undefined\<close> inside a template literal.\<close>

fun to_str :: "string option \<Rightarrow> string" where
  "to_str None = ''undefined''"
| "to_str (Some v) = v"

text \<open>
  \<open>a === b\<close> where each side is \<open>undefined\<close> or comes out of a different \<open>JSON.parse\<close>
  call, as the stored username and the username of the frame being handled do.
  \<open>undefined\<close>, \<open>null\<close>, booleans, numbers and strings are compared by value, arrays
  and objects by identity; two calls of \<open>JSON.parse\<close> never return the same object, so
  an array or an object is \<open>===\<close> to nothing that an earlier frame has left.
\<close>

fun primitive :: "json option \<Rightarrow> bool" where
  "primitive (Some (JArr xs)) = False"
| "primitive (Some (JObj ps)) = False"
| "primitive v = True"

definition strict_eq :: "json option \<Rightarrow> json option \<Rightarrow> bool" where
  "strict_eq a b \<longleftrightarrow> primitive a \<and> a = b"

text \<open>\<open>xs.join(",")\<close> on strings.\<close>

fun commas :: "string list \<Rightarrow> string" where
  "commas [] = []"
| "commas [x] = x"
| "commas (x # y # ys) = x @ '','' @ commas (y # ys)"

text \<open>
  \<open>String(v)\<close>, the conversion a template literal applies; \<open>None\<close> is the \<open>TypeError\<close>
  it throws. An array prints its elements joined by commas, \<open>null\<close> elements as the
  empty string. An object prints as \<open>[object Object]\<close> through \<open>Object.prototype\<close>,
  unless it has an own property \<open>toString\<close>: a JSON value is never callable, and then
  neither \<open>toString\<close> nor \<open>valueOf\<close> yields a primitive.
\<close>

fun to_string :: "json \<Rightarrow> string option" where
  "to_string JNull = Some ''null''"
| "to_string (JBool b) = Some (if b then ''true'' else ''false'')"
| "to_string (JNum t) = Some t"
| "to_string (JStr t) = Some t"
| "to_string (JArr xs) =
     map_option commas
       (those (map (\<lambda>v. if v = JNull then Some [] else to_string v) xs))"
| "to_string (JObj ps) =
     (if ''toString'' \<in> fst ` set ps then None else Some ''[object Object]'')"

text \<open>\<open>if (v)\<close> on a JSON value or \<open>undefined\<close>: \<open>null\<close>, \<open>false\<close>, zero and the empty
  string are falsy; arrays and objects are truthy, empty or not.\<close>

fun json_truthy :: "json option \<Rightarrow> bool" where
  "json_truthy None = False"
| "json_truthy (Some JNull) = False"
| "json_truthy (Some (JBool b)) = b"
| "json_truthy (Some (JNum t)) = (t \<noteq> ''0'')"
| "json_truthy (Some (JStr t)) = (t \<noteq> [])"
| "json_truthy (Some (JArr xs)) = True"
| "json_truthy (Some (JObj ps)) = True"

text \<open>\<open>`${v}`\<close> for a field that may be absent.\<close>

fun template :: "json option \<Rightarrow> string option" where
  "template None = Some ''undefined''"
| "template (Some v) = to_string v"

text \<open>\<open>a || b\<close> with a string default.\<close>

fun or_else :: "string option \<Rightarrow> string \<Rightarrow> string" where
  "or_else None d = d"
| "or_else (Some v) d = (if v = [] then d else v)"

text \<open>\<open>xs.slice(-n)\<close>: the last \<open>n\<close> elements, all of them when there are fewer.\<close>

definition slice_last :: "nat \<Rightarrow> 'a list \<Rightarrow> 'a list" where
  "slice_last n xs = drop (length xs - n) xs"

text \<open>\<open>m.get(k)\<close> where \<open>k\<close> comes from the envelope and the keys are generated ids.\<close>

fun get_opt :: "(string \<times> 'v) list \<Rightarrow> string option \<Rightarrow> 'v option" where
  "get_opt m None = None"
| "get_opt m (Some k) = map_of m k"

text \<open>Dereferencing: the array, the user object, a reference stands for.\<close>

abbreviation arr :: "state \<Rightarrow> nat \<Rightarrow> string option list" where
  "arr s r \<equiv> array_heap s ! r"

abbreviation usr :: "state \<Rightarrow> nat \<Rightarrow> user" where
  "usr s r \<equiv> user_heap s ! r"

subsection \<open>Delivery helpers\<close>

text \<open>One call of \<open>ws.send(JSON.stringify(ev))\<close> on the socket of connection \<open>cid\<close>.\<close>

definition ws_send :: "string \<Rightarrow> event \<Rightarrow> state \<Rightarrow> state" where
  "ws_send cid ev s = s\<lparr> outbox := (outbox s)(cid := outbox s cid @ [ev]) \<rparr>"

text \<open>Lines 285-290.\<close>

definition sendToUser :: "string option \<Rightarrow> event \<Rightarrow> state \<Rightarrow> state" where
  "sendToUser userId ev s =
     (case userId of
        None \<Rightarrow> s
      | Some uid \<Rightarrow>
          (case map_of (clients s) uid of
             None \<Rightarrow> s
           | Some _ \<Rightarrow> if readyState s uid = Some OPEN then ws_send uid ev s else s))"

text \<open>\<open>excludeId\<close> is \<open>null\<close> (\<open>None\<close>: nobody is excluded) or a client id.\<close>

definition excluded :: "string option \<Rightarrow> string option \<Rightarrow> bool" where
  "excluded excludeId participantId =
     (case excludeId of None \<Rightarrow> False | Some x \<Rightarrow> participantId = Some x)"

text \<open>Lines 263-275. The body of the loop is the test and the send of \<open>sendToUser\<close>.\<close>

definition broadcastToRoom :: "string option \<Rightarrow> event \<Rightarrow> string option \<Rightarrow> state \<Rightarrow> state" where
  "broadcastToRoom roomId ev excludeId s =
     (case map_of (chatRooms s) roomId of
        None \<Rightarrow> s
      | Some room \<Rightarrow>
          fold (\<lambda>participantId t.
                  if \<not> excluded excludeId participantId then sendToUser participantId ev t else t)
               (arr s (r_participants room)) s)"

text \<open>Lines 277-283.\<close>

definition broadcastToAll :: "event \<Rightarrow> string option \<Rightarrow> state \<Rightarrow> state" where
  "broadcastToAll ev excludeId s =
     fold (\<lambda>clientId t.
             if \<not> excluded excludeId (Some clientId) \<and> readyState t clientId = Some OPEN
             then ws_send clientId ev t else t)
          (map fst (clients s)) s"

subsection \<open>Handlers\<close>

text \<open>The loop over \<open>users.entries()\<close> that opens \<open>handleUserRegister\<close> (lines 381-391).\<close>

definition username_taken :: "state \<Rightarrow> json option \<Rightarrow> bool" where
  "username_taken s username =
     list_ex (\<lambda>(i, r). strict_eq (u_username (usr s r)) username) (users s)"

text \<open>\<open>avatar || `https://...?seed=${username}`\<close> (lines 396-397): the template is
  evaluated only when \<open>avatar\<close> is falsy; \<open>None\<close> when it throws.\<close>

definition avatar_or_seed :: "envelope \<Rightarrow> json option" where
  "avatar_or_seed msg =
     (if json_truthy (e_avatar msg) then e_avatar msg
      else map_option (\<lambda>t. JStr (''https://api.dicebear.com/7.x/avataaars/svg?seed='' @ t))
             (template (e_username msg)))"

text \<open>The \<open>user\<close> object of \<open>handleUserRegister\<close>.\<close>

definition new_user :: "string \<Rightarrow> envelope \<Rightarrow> json \<Rightarrow> string \<Rightarrow> user" where
  "new_user clientId msg avatar now =
     \<lparr> u_id = clientId, u_username = e_username msg, u_avatar = avatar,
       u_status = Some ''online'', u_lastSeen = now \<rparr>"

text \<open>Lines 377-420. A \<open>TypeError\<close> of a template literal is caught nowhere: the run of
  the handler ends at the throw, before any \<open>Map\<close> is written and before any send. What
  the runtime does with the uncaught exception is not modelled; the state is the one the
  throw left.\<close>

definition handleUserRegister :: "string \<Rightarrow> envelope \<Rightarrow> string \<Rightarrow> state \<Rightarrow> state" where
  "handleUserRegister clientId msg now s =
     (if username_taken s (e_username msg)
      then (case template (e_username msg) of
              None \<Rightarrow> s
            | Some name \<Rightarrow>
                ws_send clientId
                  (ERROR (Some ''USERNAME_EXISTS'')
                     (''Username \"'' @ name
                        @ ''\" already exists. Please choose a different username.'')) s)
      else
        (case avatar_or_seed msg of
           None \<Rightarrow> s
         | Some avatar \<Rightarrow>
             let r = length (user_heap s);
                 user = new_user clientId msg avatar now;
                 s1 = s\<lparr> user_heap := user_heap s @ [user],
                         users := AList.update clientId r (users s),
                         clients := AList.update clientId r (clients s) \<rparr>;
                 s2 = ws_send clientId (USER_REGISTERED user) s1
             in broadcastToAll (USER_JOINED user) (Some clientId) s2))"

text \<open>Whether a \<open>USER_REGISTER\<close> gets as far as writing the \<open>Map\<close>s, and with which
  avatar: the username is not taken and the avatar expression does not throw.\<close>

definition registers :: "state \<Rightarrow> envelope \<Rightarrow> json option" where
  "registers s msg = (if username_taken s (e_username msg) then None else avatar_or_seed msg)"

text \<open>Lines 422-468. The user object found is mutated in place and moved to the key
  \<open>clientId\<close>; the entry of \<open>clients\<close> under the old id, if any, keeps pointing at it.\<close>

definition handleUserLogin :: "string \<Rightarrow> envelope \<Rightarrow> string \<Rightarrow> state \<Rightarrow> state" where
  "handleUserLogin clientId msg now s =
     (case find (\<lambda>(i, r). strict_eq (u_username (usr s r)) (e_username msg)) (users s) of
        None \<Rightarrow> ws_send clientId (ERROR None ''User not found'') s
      | Some (i, r) \<Rightarrow>
          let existingUser = (usr s r)\<lparr> u_id := clientId, u_status := Some ''online'',
                                       u_lastSeen := now \<rparr>;
              s1 = s\<lparr> user_heap := (user_heap s)[r := existingUser],
                      users := AList.update clientId r (AList.delete i (users s)),
                      clients := AList.update clientId r (clients s) \<rparr>;
              s2 = ws_send clientId (USER_LOGGED_IN existingUser) s1
          in broadcastToAll (USER_STATUS_UPDATE clientId (Some ''online'') None)
               (Some clientId) s2)"

text \<open>Lines 470-482.\<close>

definition handleGetUsers :: "string \<Rightarrow> state \<Rightarrow> state" where
  "handleGetUsers clientId s =
     (let allUsers = filter (\<lambda>u. u_id u \<noteq> clientId) (map (\<lambda>(i, r). usr s r) (users s))
      in case map_of (clients s) clientId of
           None \<Rightarrow> s
         | Some _ \<Rightarrow> ws_send clientId (USERS_LIST allUsers) s)"

text \<open>The \<open>messageData\<close> object of \<open>handleSendMessage\<close>; \<open>messageType\<close> defaults to
  \<open>"text"\<close> when the envelope has none.\<close>

definition messageData :: "string \<Rightarrow> envelope \<Rightarrow> string \<Rightarrow> string \<Rightarrow> message" where
  "messageData clientId msg now gid =
     \<lparr> m_id = gid, m_from = clientId, m_to = e_to msg, m_content = e_content msg,
       m_messageType = (case e_messageType msg of None \<Rightarrow> ''text'' | Some t \<Rightarrow> t),
       m_timestamp = now, m_roomId = e_roomId msg \<rparr>"

text \<open>Lines 484-525.\<close>

definition handleSendMessage :: "string \<Rightarrow> envelope \<Rightarrow> string \<Rightarrow> string \<Rightarrow> state \<Rightarrow> state" where
  "handleSendMessage clientId msg now gid s =
     (case map_of (clients s) clientId of
        None \<Rightarrow> s
      | Some _ \<Rightarrow>
          if truthy (e_roomId msg) then
            (case map_of (chatRooms s) (e_roomId msg) of
               None \<Rightarrow> s
             | Some room \<Rightarrow>
                 broadcastToRoom (e_roomId msg) (NEW_MESSAGE (messageData clientId msg now gid)) None
                   (s\<lparr> chatRooms := AList.update (e_roomId msg)
                          (room\<lparr> r_messages := r_messages room
                                    @ [messageData clientId msg now gid] \<rparr>)
                          (chatRooms s) \<rparr>))
          else if truthy (e_to msg) then
            ws_send clientId (MESSAGE_SENT (messageData clientId msg now gid))
              (sendToUser (e_to msg) (NEW_MESSAGE (messageData clientId msg now gid)) s)
          else s)"

text \<open>The first statement of \<open>handleJoinRoom\<close>: create the room when the key is new.\<close>

definition ensure_room :: "string option \<Rightarrow> string option \<Rightarrow> string \<Rightarrow> state \<Rightarrow> state" where
  "ensure_room roomId roomName now s =
     (case map_of (chatRooms s) roomId of
        Some _ \<Rightarrow> s
      | None \<Rightarrow>
          s\<lparr> chatRooms := AList.update roomId
                 \<lparr> r_id = roomId, r_name = or_else roomName (''Room '' @ to_str roomId),
                   r_participants = length (array_heap s), r_messages = [], r_createdAt = now \<rparr>
                 (chatRooms s),
             array_heap := array_heap s @ [[]] \<rparr>)"

text \<open>\<open>client?.user?.username\<close>.\<close>

definition client_username :: "state \<Rightarrow> string \<Rightarrow> json option" where
  "client_username s clientId =
     (case map_of (clients s) clientId of None \<Rightarrow> None | Some r \<Rightarrow> u_username (usr s r))"

text \<open>Lines 527-568.\<close>

definition handleJoinRoom :: "string \<Rightarrow> envelope \<Rightarrow> string \<Rightarrow> state \<Rightarrow> state" where
  "handleJoinRoom clientId msg now s =
     (let s1 = ensure_room (e_roomId msg) (e_roomName msg) now s
      in case map_of (chatRooms s1) (e_roomId msg) of
           None \<Rightarrow> s1
         | Some room \<Rightarrow>
             let a = r_participants room;
                 s2 = (if Some clientId \<in> set (arr s1 a) then s1
                       else s1\<lparr> array_heap := (array_heap s1)[a := arr s1 a @ [Some clientId]] \<rparr>);
                 s3 = (case map_of (clients s2) clientId of
                         None \<Rightarrow> s2
                       | Some _ \<Rightarrow>
                           ws_send clientId
                             (ROOM_JOINED (room\<lparr> r_messages := slice_last 50 (r_messages room) \<rparr>)
                                (arr s2 a)) s2)
             in broadcastToRoom (e_roomId msg)
                  (USER_JOINED_ROOM clientId (client_username s3 clientId)) (Some clientId) s3)"

text \<open>\<open>room.participants = room.participants.filter(...)\<close>: a new array replaces the
  room's reference; whoever else holds the old array keeps it, unfiltered.\<close>

definition remove_participant :: "string \<Rightarrow> string option \<Rightarrow> room \<Rightarrow> state \<Rightarrow> state" where
  "remove_participant clientId roomId room s =
     s\<lparr> array_heap := array_heap s
          @ [filter (\<lambda>i. i \<noteq> Some clientId) (arr s (r_participants room))],
        chatRooms := AList.update roomId (room\<lparr> r_participants := length (array_heap s) \<rparr>)
                       (chatRooms s) \<rparr>"

text \<open>Lines 570-587.\<close>

definition handleLeaveRoom :: "string \<Rightarrow> envelope \<Rightarrow> state \<Rightarrow> state" where
  "handleLeaveRoom clientId msg s =
     (case map_of (chatRooms s) (e_roomId msg) of
        None \<Rightarrow> s
      | Some room \<Rightarrow>
          broadcastToRoom (e_roomId msg) (USER_LEFT_ROOM clientId) (Some clientId)
            (remove_participant clientId (e_roomId msg) room s))"

text \<open>The \<open>participants\<close> initialiser of \<open>handleInitiateCall\<close>. An array is an object and
  so truthy even when empty: an existing room always contributes its own array.\<close>

definition call_participants :: "string \<Rightarrow> envelope \<Rightarrow> state \<Rightarrow> nat \<times> state" where
  "call_participants clientId msg s =
     (if truthy (e_roomId msg) then
        (case map_of (chatRooms s) (e_roomId msg) of
           Some room \<Rightarrow> (r_participants room, s)
         | None \<Rightarrow> (length (array_heap s), s\<lparr> array_heap := array_heap s @ [[]] \<rparr>))
      else (length (array_heap s),
            s\<lparr> array_heap := array_heap s @ [[Some clientId, e_to msg]] \<rparr>))"

text \<open>Lines 589-634.\<close>

definition handleInitiateCall :: "string \<Rightarrow> envelope \<Rightarrow> string \<Rightarrow> string \<Rightarrow> state \<Rightarrow> state" where
  "handleInitiateCall clientId msg now callId s =
     (case call_participants clientId msg s of
        (a, s1) \<Rightarrow>
          let callData = \<lparr> c_id = callId, c_initiator = clientId, c_participants = a,
                           c_callType = e_callType msg, c_status = Ringing, c_startTime = now,
                           c_roomId = e_roomId msg, c_answeredBy = None, c_answerTime = None,
                           c_rejectedBy = None, c_endTime = None, c_endedBy = None \<rparr>;
              s2 = s1\<lparr> activeCalls := AList.update callId callData (activeCalls s1) \<rparr>;
              s3 = (if truthy (e_roomId msg)
                    then broadcastToRoom (e_roomId msg) (INCOMING_CALL callData (arr s2 a))
                           (Some clientId) s2
                    else sendToUser (e_to msg) (INCOMING_CALL callData (arr s2 a)) s2)
          in case map_of (clients s3) clientId of
               None \<Rightarrow> s3
             | Some _ \<Rightarrow> ws_send clientId (CALL_INITIATED callData (arr s3 a)) s3)"

text \<open>\<open>call.participants.forEach(id => sendToUser(id, ev))\<close>.\<close>

definition notify_all :: "string option list \<Rightarrow> event \<Rightarrow> state \<Rightarrow> state" where
  "notify_all ps ev s = fold (\<lambda>participantId t. sendToUser participantId ev t) ps s"

text \<open>Lines 636-653.\<close>

definition handleAnswerCall :: "string \<Rightarrow> envelope \<Rightarrow> string \<Rightarrow> state \<Rightarrow> state" where
  "handleAnswerCall clientId msg now s =
     (case e_callId msg of
        None \<Rightarrow> s
      | Some callId \<Rightarrow>
          (case map_of (activeCalls s) callId of
             None \<Rightarrow> s
           | Some call \<Rightarrow>
               let call' = call\<lparr> c_status := Active, c_answeredBy := Some clientId,
                                 c_answerTime := Some now \<rparr>;
                   s1 = s\<lparr> activeCalls := AList.update callId call' (activeCalls s) \<rparr>
               in notify_all (arr s1 (c_participants call'))
                    (CALL_ANSWERED call' (arr s1 (c_participants call'))) s1))"

text \<open>Lines 655-674.\<close>

definition handleRejectCall :: "string \<Rightarrow> envelope \<Rightarrow> string \<Rightarrow> state \<Rightarrow> state" where
  "handleRejectCall clientId msg now s =
     (case e_callId msg of
        None \<Rightarrow> s
      | Some callId \<Rightarrow>
          (case map_of (activeCalls s) callId of
             None \<Rightarrow> s
           | Some call \<Rightarrow>
               let call' = call\<lparr> c_status := Rejected, c_rejectedBy := Some clientId,
                                 c_endTime := Some now \<rparr>;
                   s1 = s\<lparr> activeCalls := AList.update callId call' (activeCalls s) \<rparr>;
                   s2 = notify_all (arr s1 (c_participants call'))
                          (CALL_REJECTED call' (arr s1 (c_participants call'))) s1
               in s2\<lparr> activeCalls := AList.delete callId (activeCalls s2) \<rparr>))"

text \<open>Lines 676-695.\<close>

definition handleEndCall :: "string \<Rightarrow> envelope \<Rightarrow> string \<Rightarrow> state \<Rightarrow> state" where
  "handleEndCall clientId msg now s =
     (case e_callId msg of
        None \<Rightarrow> s
      | Some callId \<Rightarrow>
          (case map_of (activeCalls s) callId of
             None \<Rightarrow> s
           | Some call \<Rightarrow>
               let call' = call\<lparr> c_status := Ended, c_endTime := Some now,
                                 c_endedBy := Some clientId \<rparr>;
                   s1 = s\<lparr> activeCalls := AList.update callId call' (activeCalls s) \<rparr>;
                   s2 = notify_all (arr s1 (c_participants call'))
                          (CALL_ENDED call' (arr s1 (c_participants call'))) s1
               in s2\<lparr> activeCalls := AList.delete callId (activeCalls s2) \<rparr>))"

text \<open>Lines 697-720.\<close>

definition handleWebRTCSignaling :: "string \<Rightarrow> envelope \<Rightarrow> state \<Rightarrow> state" where
  "handleWebRTCSignaling clientId msg s =
     (if truthy (e_to msg) then sendToUser (e_to msg) (RELAY msg clientId) s
      else if truthy (e_callId msg) then
        (case get_opt (activeCalls s) (e_callId msg) of
           None \<Rightarrow> s
         | Some call \<Rightarrow>
             fold (\<lambda>participantId t.
                     if participantId \<noteq> Some clientId
                     then sendToUser participantId (RELAY msg clientId) t else t)
                  (arr s (c_participants call)) s)
      else s)"

text \<open>Lines 722-739.\<close>

definition handleTyping :: "string \<Rightarrow> envelope \<Rightarrow> state \<Rightarrow> state" where
  "handleTyping clientId msg s =
     (case map_of (clients s) clientId of
        None \<Rightarrow> s
      | Some r \<Rightarrow>
          let typingMessage = TYPING msg clientId (u_username (usr s r))
          in if truthy (e_roomId msg)
             then broadcastToRoom (e_roomId msg) typingMessage (Some clientId) s
             else if truthy (e_to msg) then sendToUser (e_to msg) typingMessage s
             else s)"

text \<open>Lines 741-759.\<close>

definition handleUserStatusChange :: "string \<Rightarrow> envelope \<Rightarrow> string \<Rightarrow> state \<Rightarrow> state" where
  "handleUserStatusChange clientId msg now s =
     (case map_of (users s) clientId of
        None \<Rightarrow> s
      | Some r \<Rightarrow>
          broadcastToAll (USER_STATUS_UPDATE clientId (e_status msg) (Some now)) (Some clientId)
            (s\<lparr> user_heap := (user_heap s)
                   [r := (usr s r)\<lparr> u_status := e_status msg, u_lastSeen := now \<rparr>] \<rparr>))"

text \<open>An envelope with no field set, and the literal \<open>{ callId }\<close> that
  \<open>handleDisconnect\<close> passes to \<open>handleEndCall\<close>.\<close>

definition no_fields :: envelope where
  "no_fields =
     \<lparr> e_type = None, e_username = None, e_avatar = None, e_to = None, e_content = None,
       e_messageType = None, e_roomId = None, e_roomName = None, e_callType = None,
       e_callId = None, e_status = None, e_payload = [] \<rparr>"

definition callId_msg :: "string \<Rightarrow> envelope" where
  "callId_msg callId = no_fields\<lparr> e_callId := Some callId \<rparr>"

text \<open>
  The two loops of \<open>handleDisconnect\<close> run over the live \<open>Map\<close>s. Their bodies
  (\<open>end_call_step\<close>, \<open>leave_step\<close>) delete at most the entry being visited and add none,
  so visiting the keys present at the start, and looking each one up again, is the same
  traversal.
\<close>

definition end_call_step :: "string \<Rightarrow> string \<Rightarrow> string \<Rightarrow> state \<Rightarrow> state" where
  "end_call_step clientId now callId t =
     (case map_of (activeCalls t) callId of
        None \<Rightarrow> t
      | Some call \<Rightarrow>
          if Some clientId \<in> set (arr t (c_participants call))
          then handleEndCall clientId (callId_msg callId) now t else t)"

definition end_calls_of :: "string \<Rightarrow> string \<Rightarrow> state \<Rightarrow> state" where
  "end_calls_of clientId now s =
     fold (end_call_step clientId now) (map fst (activeCalls s)) s"

definition leave_step :: "string \<Rightarrow> string option \<Rightarrow> state \<Rightarrow> state" where
  "leave_step clientId roomId t =
     (case map_of (chatRooms t) roomId of
        None \<Rightarrow> t
      | Some room \<Rightarrow>
          if Some clientId \<in> set (arr t (r_participants room))
          then broadcastToRoom roomId (USER_LEFT_ROOM clientId) (Some clientId)
                 (remove_participant clientId roomId room t)
          else t)"

definition leave_rooms_of :: "string \<Rightarrow> state \<Rightarrow> state" where
  "leave_rooms_of clientId s = fold (leave_step clientId) (map fst (chatRooms s)) s"

text \<open>Lines 761-805.\<close>

definition handleDisconnect :: "string \<Rightarrow> string \<Rightarrow> state \<Rightarrow> state" where
  "handleDisconnect clientId now s =
     (let s' = (case map_of (clients s) clientId of
                  None \<Rightarrow> s
                | Some r \<Rightarrow>
                    let s1 = s\<lparr> user_heap := (user_heap s)
                                  [r := (usr s r)\<lparr> u_status := Some ''offline'',
                                                   u_lastSeen := now \<rparr>] \<rparr>;
                        s2 = broadcastToAll
                               (USER_STATUS_UPDATE clientId (Some ''offline'') (Some now))
                               (Some clientId) s1;
                        s3 = end_calls_of clientId now s2
                    in leave_rooms_of clientId s3)
      in s'\<lparr> clients := AList.delete clientId (clients s') \<rparr>)"

subsection \<open>The connection handler\<close>

text \<open>The \<open>switch\<close> of the \<open>message\<close> callback (lines 310-355); an unknown type is
  logged and dropped.\<close>

definition on_message :: "string \<Rightarrow> envelope \<Rightarrow> string \<Rightarrow> string \<Rightarrow> state \<Rightarrow> state" where
  "on_message clientId msg now gid s =
     (let t = e_type msg in
      if t = Some ''USER_REGISTER'' then handleUserRegister clientId msg now s
      else if t = Some ''USER_LOGIN'' then handleUserLogin clientId msg now s
      else if t = Some ''GET_USERS'' then handleGetUsers clientId s
      else if t = Some ''SEND_MESSAGE'' then handleSendMessage clientId msg now gid s
      else if t = Some ''JOIN_ROOM'' then handleJoinRoom clientId msg now s
      else if t = Some ''LEAVE_ROOM'' then handleLeaveRoom clientId msg s
      else if t = Some ''INITIATE_CALL'' then handleInitiateCall clientId msg now gid s
      else if t = Some ''ANSWER_CALL'' then handleAnswerCall clientId msg now s
      else if t = Some ''REJECT_CALL'' then handleRejectCall clientId msg now s
      else if t = Some ''END_CALL'' then handleEndCall clientId msg now s
      else if t = Some ''WEBRTC_OFFER'' \<or> t = Some ''WEBRTC_ANSWER''
              \<or> t = Some ''WEBRTC_ICE_CANDIDATE'' then handleWebRTCSignaling clientId msg s
      else if t = Some ''TYPING_START'' \<or> t = Some ''TYPING_STOP'' then handleTyping clientId msg s
      else if t = Some ''USER_STATUS_CHANGE'' then handleUserStatusChange clientId msg now s
      else s)"

text \<open>A new connection (lines 293-297, 366-373): the socket is open and gets the
  \<open>CONNECTED\<close> greeting.\<close>

definition on_connection :: "string \<Rightarrow> string \<Rightarrow> state \<Rightarrow> state" where
  "on_connection clientId now s =
     ws_send clientId (CONNECTED clientId now)
       (s\<lparr> readyState := (readyState s)(clientId \<mapsto> OPEN) \<rparr>)"

text \<open>The \<open>close\<close> callback (lines 358-360) runs when the socket has reached
  \<open>CLOSED\<close>.\<close>

definition on_close :: "string \<Rightarrow> string \<Rightarrow> state \<Rightarrow> state" where
  "on_close clientId now s =
     handleDisconnect clientId now (s\<lparr> readyState := (readyState s)(clientId \<mapsto> CLOSED) \<rparr>)"

text \<open>
  What the transport can do to the server. \<open>Connect\<close> accepts a connection and takes
  the id \<open>generateId()\<close> returns, assumed different from every id handed out before;
  \<open>Receive\<close> delivers one parsed envelope on an open socket (an envelope that does not
  parse changes nothing and has no input here); \<open>BeginClose\<close> is the closing handshake
  starting (the socket is no longer \<open>OPEN\<close>, its \<open>close\<close> callback has not run yet);
  \<open>Close\<close> is the \<open>close\<close> callback.
\<close>

datatype input =
    Connect string string
  | Receive string envelope string string
  | BeginClose string
  | Close string string

fun enabled :: "state \<Rightarrow> input \<Rightarrow> bool" where
  "enabled s (Connect clientId now) = (readyState s clientId = None)"
| "enabled s (Receive clientId msg now gid) = (readyState s clientId = Some OPEN)"
| "enabled s (BeginClose clientId) = (readyState s clientId = Some OPEN)"
| "enabled s (Close clientId now) =
     (readyState s clientId = Some OPEN \<or> readyState s clientId = Some CLOSING)"

fun apply_input :: "input \<Rightarrow> state \<Rightarrow> state" where
  "apply_input (Connect clientId now) s = on_connection clientId now s"
| "apply_input (Receive clientId msg now gid) s = on_message clientId msg now gid s"
| "apply_input (BeginClose clientId) s = s\<lparr> readyState := (readyState s)(clientId \<mapsto> CLOSING) \<rparr>"
| "apply_input (Close clientId now) s = on_close clientId now s"

inductive reachable :: "state \<Rightarrow> bool" where
  reachable_init: "reachable init_state"
| reachable_step: "reachable s \<Longrightarrow> enabled s i \<Longrightarrow> reachable (apply_input i s)"

text \<open>Running a list of inputs, and whether each one is enabled when its turn comes.\<close>

definition exec :: "input list \<Rightarrow> state \<Rightarrow> state" where
  "exec inputs s = fold apply_input inputs s"

fun accepts :: "input list \<Rightarrow> state \<Rightarrow> bool" where
  "accepts [] s = True"
| "accepts (i # inputs) s = (enabled s i \<and> accepts inputs (apply_input i s))"

text \<open>A client is deliverable when \<open>clients\<close> has it and its socket is open: the test
  of \<open>sendToUser\<close> and \<open>broadcastToRoom\<close>.\<close>

definition deliverable :: "state \<Rightarrow> string \<Rightarrow> bool" where
  "deliverable s clientId =
     (map_of (clients s) clientId \<noteq> None \<and> readyState s clientId = Some OPEN)"

text \<open>The events a step appended to a socket.\<close>

definition new_events :: "state \<Rightarrow> state \<Rightarrow> string \<Rightarrow> event list" where
  "new_events s s' clientId = drop (length (outbox s clientId)) (outbox s' clientId)"

text \<open>A room's stored history and its participant list, empty when there is no such room.\<close>

definition history :: "state \<Rightarrow> string option \<Rightarrow> message list" where
  "history s roomId = (case map_of (chatRooms s) roomId of None \<Rightarrow> [] | Some room \<Rightarrow> r_messages room)"

definition room_parts :: "state \<Rightarrow> string option \<Rightarrow> string option list" where
  "room_parts s roomId =
     (case map_of (chatRooms s) roomId of None \<Rightarrow> [] | Some room \<Rightarrow> arr s (r_participants room))"

subsection \<open>Properties of states\<close>

text \<open>Every reference held by \<open>users\<close> or by a room is allocated.\<close>

definition refs_ok :: "state \<Rightarrow> bool" where
  "refs_ok s =
     (list_all (\<lambda>(i, r). r < length (user_heap s)) (users s)
      \<and> list_all (\<lambda>(roomId, room). r_participants room < length (array_heap s)) (chatRooms s))"


text \<open>Every call in \<open>activeCalls\<close> is ringing or active.\<close>

definition calls_live :: "state \<Rightarrow> bool" where
  "calls_live s =
     list_all (\<lambda>(callId, call). c_status call = Ringing \<or> c_status call = Active) (activeCalls s)"

text \<open>An id that is a key of \<open>users\<close> is bound in \<open>clients\<close> unless its socket has closed.\<close>

definition registered_bound :: "state \<Rightarrow> bool" where
  "registered_bound s =
     list_all (\<lambda>c. map_of (clients s) c \<noteq> None \<or> readyState s c = Some CLOSED)
       (map fst (users s))"

text \<open>A participant whose socket has closed is no key of \<open>users\<close>: a registered
  connection leaves its rooms when it closes.\<close>

definition closed_unregistered :: "state \<Rightarrow> bool" where
  "closed_unregistered s =
     list_all (\<lambda>roomId.
        list_all (\<lambda>p. case p of None \<Rightarrow> True
                       | Some c \<Rightarrow> readyState s c \<noteq> Some CLOSED \<or> map_of (users s) c = None)
          (room_parts s roomId))
       (map fst (chatRooms s))"

text \<open>Every participant of every room that is a registered identity (a key of \<open>users\<close>)
  is bound in \<open>clients\<close>.\<close>

definition participants_bound :: "state \<Rightarrow> bool" where
  "participants_bound s =
     list_all (\<lambda>roomId.
        list_all (\<lambda>p. case p of None \<Rightarrow> True
                       | Some c \<Rightarrow> map_of (users s) c = None \<or> map_of (clients s) c \<noteq> None)
          (room_parts s roomId))
       (map fst (chatRooms s))"

text \<open>No room lists a participant twice.\<close>

definition rooms_distinct :: "state \<Rightarrow> bool" where
  "rooms_distinct s = list_all (\<lambda>roomId. distinct (room_parts s roomId)) (map fst (chatRooms s))"

text \<open>A call's participant list, and whether a call and a room hold the same array.\<close>

definition call_parts :: "state \<Rightarrow> string \<Rightarrow> string option list" where
  "call_parts s callId =
     (case map_of (activeCalls s) callId of None \<Rightarrow> [] | Some call \<Rightarrow> arr s (c_participants call))"

definition shares_array :: "state \<Rightarrow> string \<Rightarrow> string option \<Rightarrow> bool" where
  "shares_array s callId roomId =
     (case map_of (activeCalls s) callId of
        None \<Rightarrow> False
      | Some call \<Rightarrow>
          (case map_of (chatRooms s) roomId of
             None \<Rightarrow> False
           | Some room \<Rightarrow> c_participants call = r_participants room
                         \<and> r_participants room < length (array_heap s)))"

subsection \<open>Scenarios\<close>

text \<open>Concrete envelopes and runs, used to instantiate the theorems below.\<close>

definition register_msg :: "string \<Rightarrow> envelope" where
  "register_msg name =
     no_fields\<lparr> e_type := Some ''USER_REGISTER'', e_username := Some (JStr name) \<rparr>"

text \<open>The user object that \<open>register_msg name\<close> creates on connection \<open>c\<close>.\<close>

definition registered :: "string \<Rightarrow> string \<Rightarrow> string \<Rightarrow> user" where
  "registered c name now =
     new_user c (register_msg name)
       (JStr (''https://api.dicebear.com/7.x/avataaars/svg?seed='' @ name)) now"

definition join_msg :: "string \<Rightarrow> envelope" where
  "join_msg roomId = no_fields\<lparr> e_type := Some ''JOIN_ROOM'', e_roomId := Some roomId \<rparr>"

definition three_users :: "input list" where
  "three_users =
     [Connect ''A'' ''t0'', Connect ''B'' ''t0'', Connect ''C'' ''t0'',
      Receive ''A'' (register_msg ''alice'') ''t1'' ''g1'',
      Receive ''B'' (register_msg ''bob'') ''t2'' ''g2'',
      Receive ''C'' (register_msg ''carol'') ''t3'' ''g3'']"

text \<open>A rings B directly; C is registered and takes no part in the call.\<close>

definition direct_call :: state where
  "direct_call =
     exec (three_users @
           [Receive ''A'' (no_fields\<lparr> e_type := Some ''INITIATE_CALL'', e_to := Some ''B'',
                                     e_callType := Some ''audio'' \<rparr>) ''t4'' ''k1''])
       init_state"

definition call_k1 :: call where
  "call_k1 =
     \<lparr> c_id = ''k1'', c_initiator = ''A'', c_participants = 0, c_callType = Some ''audio'',
       c_status = Ringing, c_startTime = ''t4'', c_roomId = None, c_answeredBy = None,
       c_answerTime = None, c_rejectedBy = None, c_endTime = None, c_endedBy = None \<rparr>"

text \<open>A, B and C in room R; then A posts \<open>n\<close> messages there, numbered by the length of
  their ids.\<close>

definition room_msg :: "string \<Rightarrow> envelope" where
  "room_msg roomId = no_fields\<lparr> e_type := Some ''SEND_MESSAGE'', e_roomId := Some roomId,
                                e_content := Some ''hi'' \<rparr>"

definition in_room :: "input list" where
  "in_room =
     three_users @
     [Receive ''A'' (join_msg ''R'') ''t4'' ''g4'',
      Receive ''B'' (join_msg ''R'') ''t5'' ''g5'',
      Receive ''C'' (join_msg ''R'') ''t6'' ''g6'']"

definition posts :: "nat \<Rightarrow> input list" where
  "posts n = map (\<lambda>k. Receive ''A'' (room_msg ''R'') ''t7'' (replicate k (CHR ''m''))) [0..<n]"

definition after_posts :: "nat \<Rightarrow> state" where
  "after_posts n = exec (in_room @ posts n) init_state"

definition post :: "nat \<Rightarrow> message" where
  "post k = messageData ''A'' (room_msg ''R'') ''t7'' (replicate k (CHR ''m''))"

definition room_R :: "nat \<Rightarrow> room" where
  "room_R n = \<lparr> r_id = Some ''R'', r_name = ''Room R'', r_participants = 0,
                r_messages = map post [0..<n], r_createdAt = ''t4'' \<rparr>"

text \<open>Direct messages from A: to an id no connection has, and with an empty \<open>to\<close>.\<close>

definition direct_msg :: "string \<Rightarrow> envelope" where
  "direct_msg to = no_fields\<lparr> e_type := Some ''SEND_MESSAGE'', e_to := Some to,
                             e_content := Some ''hi'' \<rparr>"





text \<open>A, B and C are in room R; D connects and registers; A starts a call in the room.\<close>

definition room_call_msg :: envelope where
  "room_call_msg = no_fields\<lparr> e_type := Some ''INITIATE_CALL'', e_roomId := Some ''R'',
                              e_callType := Some ''video'' \<rparr>"

definition before_room_call :: state where
  "before_room_call =
     exec (in_room @ [Connect ''D'' ''t7'', Receive ''D'' (register_msg ''dave'') ''t8'' ''g8''])
       init_state"

definition room_call :: state where
  "room_call = apply_input (Receive ''A'' room_call_msg ''t9'' ''k2'') before_room_call"

text \<open>Room R holds 51 messages; then D connects, and does not register.\<close>

definition with_visitor :: state where
  "with_visitor = apply_input (Connect ''D'' ''t8'') (after_posts 51)"



text \<open>A connects and joins room R without ever registering.\<close>

definition lurker :: state where
  "lurker = exec [Connect ''A'' ''t0'', Receive ''A'' (join_msg ''R'') ''t1'' ''g1''] init_state"


section \<open>What the delivery helpers change\<close>

lemma ws_send_frame [simp]:
  "clients (ws_send c ev s) = clients s"
  "users (ws_send c ev s) = users s"
  "chatRooms (ws_send c ev s) = chatRooms s"
  "activeCalls (ws_send c ev s) = activeCalls s"
  "user_heap (ws_send c ev s) = user_heap s"
  "array_heap (ws_send c ev s) = array_heap s"
  "readyState (ws_send c ev s) = readyState s"
  by (simp_all add: ws_send_def)

lemma ws_send_outbox [simp]:
  "outbox (ws_send c ev s) c' = (if c' = c then outbox s c @ [ev] else outbox s c')"
  by (simp add: ws_send_def)

lemma sendToUser_frame [simp]:
  "clients (sendToUser u ev s) = clients s"
  "users (sendToUser u ev s) = users s"
  "chatRooms (sendToUser u ev s) = chatRooms s"
  "activeCalls (sendToUser u ev s) = activeCalls s"
  "user_heap (sendToUser u ev s) = user_heap s"
  "array_heap (sendToUser u ev s) = array_heap s"
  "readyState (sendToUser u ev s) = readyState s"
  by (simp_all add: sendToUser_def split: option.splits)

lemma deliverable_cong:
  "clients s' = clients s \<Longrightarrow> readyState s' = readyState s \<Longrightarrow> deliverable s' = deliverable s"
  by (simp add: deliverable_def fun_eq_iff)

lemma sendToUser_outbox:
  "outbox (sendToUser u ev s) c =
     outbox s c @ (if u = Some c \<and> deliverable s c then [ev] else [])"
  by (auto simp: sendToUser_def deliverable_def split: option.splits)

lemma fold_frame:
  assumes "\<And>x t. g (f x t) = g t"
  shows "g (fold f xs s) = g s"
  using assms by (induction xs arbitrary: s) simp_all

lemma notify_all_frame [simp]:
  "clients (notify_all ps ev s) = clients s"
  "users (notify_all ps ev s) = users s"
  "chatRooms (notify_all ps ev s) = chatRooms s"
  "activeCalls (notify_all ps ev s) = activeCalls s"
  "user_heap (notify_all ps ev s) = user_heap s"
  "array_heap (notify_all ps ev s) = array_heap s"
  "readyState (notify_all ps ev s) = readyState s"
  unfolding notify_all_def by (rule fold_frame, simp)+

lemma broadcastToRoom_frame [simp]:
  "clients (broadcastToRoom r ev x s) = clients s"
  "users (broadcastToRoom r ev x s) = users s"
  "chatRooms (broadcastToRoom r ev x s) = chatRooms s"
  "activeCalls (broadcastToRoom r ev x s) = activeCalls s"
  "user_heap (broadcastToRoom r ev x s) = user_heap s"
  "array_heap (broadcastToRoom r ev x s) = array_heap s"
  "readyState (broadcastToRoom r ev x s) = readyState s"
  unfolding broadcastToRoom_def by (simp_all add: fold_frame split: option.splits)

lemma broadcastToAll_frame [simp]:
  "clients (broadcastToAll ev x s) = clients s"
  "users (broadcastToAll ev x s) = users s"
  "chatRooms (broadcastToAll ev x s) = chatRooms s"
  "activeCalls (broadcastToAll ev x s) = activeCalls s"
  "user_heap (broadcastToAll ev x s) = user_heap s"
  "array_heap (broadcastToAll ev x s) = array_heap s"
  "readyState (broadcastToAll ev x s) = readyState s"
  unfolding broadcastToAll_def by (simp_all add: fold_frame)

text \<open>How often a fold of conditional sends reaches one socket.\<close>

lemma fold_send_outbox:
  "outbox (fold (\<lambda>p t. if P p then sendToUser p ev t else t) ps s) c =
     outbox s c @ replicate (if deliverable s c then length (filter (\<lambda>p. P p \<and> p = Some c) ps) else 0) ev"
proof (induction ps arbitrary: s)
  case Nil
  then show ?case by simp
next
  case (Cons p ps)
  have d: "deliverable (sendToUser p ev s) = deliverable s"
    by (rule deliverable_cong) simp_all
  show ?case
    by (simp add: Cons.IH d sendToUser_outbox replicate_app_Cons_same)
qed

section \<open>What each handler leaves alone\<close>

lemma handleUserRegister_frame [simp]:
  "chatRooms (handleUserRegister c m now s) = chatRooms s"
  "activeCalls (handleUserRegister c m now s) = activeCalls s"
  "array_heap (handleUserRegister c m now s) = array_heap s"
  "readyState (handleUserRegister c m now s) = readyState s"
  by (simp_all add: handleUserRegister_def Let_def split: option.splits)

lemma handleUserLogin_frame [simp]:
  "chatRooms (handleUserLogin c m now s) = chatRooms s"
  "activeCalls (handleUserLogin c m now s) = activeCalls s"
  "array_heap (handleUserLogin c m now s) = array_heap s"
  "readyState (handleUserLogin c m now s) = readyState s"
  by (simp_all add: handleUserLogin_def Let_def split: option.splits prod.splits)

lemma handleGetUsers_frame [simp]:
  "clients (handleGetUsers c s) = clients s"
  "users (handleGetUsers c s) = users s"
  "chatRooms (handleGetUsers c s) = chatRooms s"
  "activeCalls (handleGetUsers c s) = activeCalls s"
  "user_heap (handleGetUsers c s) = user_heap s"
  "array_heap (handleGetUsers c s) = array_heap s"
  "readyState (handleGetUsers c s) = readyState s"
  by (simp_all add: handleGetUsers_def Let_def split: option.splits)

lemma handleSendMessage_frame [simp]:
  "clients (handleSendMessage c m now g s) = clients s"
  "users (handleSendMessage c m now g s) = users s"
  "activeCalls (handleSendMessage c m now g s) = activeCalls s"
  "user_heap (handleSendMessage c m now g s) = user_heap s"
  "array_heap (handleSendMessage c m now g s) = array_heap s"
  "readyState (handleSendMessage c m now g s) = readyState s"
  by (simp_all add: handleSendMessage_def Let_def split: option.splits)

lemma ensure_room_frame [simp]:
  "clients (ensure_room r n now s) = clients s"
  "users (ensure_room r n now s) = users s"
  "activeCalls (ensure_room r n now s) = activeCalls s"
  "user_heap (ensure_room r n now s) = user_heap s"
  "readyState (ensure_room r n now s) = readyState s"
  "outbox (ensure_room r n now s) = outbox s"
  by (simp_all add: ensure_room_def split: option.splits)

lemma handleJoinRoom_frame [simp]:
  "clients (handleJoinRoom c m now s) = clients s"
  "users (handleJoinRoom c m now s) = users s"
  "activeCalls (handleJoinRoom c m now s) = activeCalls s"
  "user_heap (handleJoinRoom c m now s) = user_heap s"
  "readyState (handleJoinRoom c m now s) = readyState s"
  by (simp_all add: handleJoinRoom_def Let_def split: option.splits)

lemma remove_participant_frame [simp]:
  "clients (remove_participant c r room s) = clients s"
  "users (remove_participant c r room s) = users s"
  "activeCalls (remove_participant c r room s) = activeCalls s"
  "user_heap (remove_participant c r room s) = user_heap s"
  "readyState (remove_participant c r room s) = readyState s"
  "outbox (remove_participant c r room s) = outbox s"
  by (simp_all add: remove_participant_def)

lemma handleLeaveRoom_frame [simp]:
  "clients (handleLeaveRoom c m s) = clients s"
  "users (handleLeaveRoom c m s) = users s"
  "activeCalls (handleLeaveRoom c m s) = activeCalls s"
  "user_heap (handleLeaveRoom c m s) = user_heap s"
  "readyState (handleLeaveRoom c m s) = readyState s"
  by (simp_all add: handleLeaveRoom_def split: option.splits)

lemma call_participants_frame [simp]:
  "clients (snd (call_participants c m s)) = clients s"
  "users (snd (call_participants c m s)) = users s"
  "chatRooms (snd (call_participants c m s)) = chatRooms s"
  "activeCalls (snd (call_participants c m s)) = activeCalls s"
  "user_heap (snd (call_participants c m s)) = user_heap s"
  "readyState (snd (call_participants c m s)) = readyState s"
  "outbox (snd (call_participants c m s)) = outbox s"
  by (simp_all add: call_participants_def split: option.splits)

lemma handleInitiateCall_frame [simp]:
  "clients (handleInitiateCall c m now g s) = clients s"
  "users (handleInitiateCall c m now g s) = users s"
  "chatRooms (handleInitiateCall c m now g s) = chatRooms s"
  "user_heap (handleInitiateCall c m now g s) = user_heap s"
  "readyState (handleInitiateCall c m now g s) = readyState s"
  by (simp_all add: handleInitiateCall_def Let_def split_beta split: option.splits)

lemma handleAnswerCall_frame [simp]:
  "clients (handleAnswerCall c m now s) = clients s"
  "users (handleAnswerCall c m now s) = users s"
  "chatRooms (handleAnswerCall c m now s) = chatRooms s"
  "user_heap (handleAnswerCall c m now s) = user_heap s"
  "array_heap (handleAnswerCall c m now s) = array_heap s"
  "readyState (handleAnswerCall c m now s) = readyState s"
  by (simp_all add: handleAnswerCall_def Let_def split: option.splits)

lemma handleRejectCall_frame [simp]:
  "clients (handleRejectCall c m now s) = clients s"
  "users (handleRejectCall c m now s) = users s"
  "chatRooms (handleRejectCall c m now s) = chatRooms s"
  "user_heap (handleRejectCall c m now s) = user_heap s"
  "array_heap (handleRejectCall c m now s) = array_heap s"
  "readyState (handleRejectCall c m now s) = readyState s"
  by (simp_all add: handleRejectCall_def Let_def split: option.splits)

lemma handleEndCall_frame [simp]:
  "clients (handleEndCall c m now s) = clients s"
  "users (handleEndCall c m now s) = users s"
  "chatRooms (handleEndCall c m now s) = chatRooms s"
  "user_heap (handleEndCall c m now s) = user_heap s"
  "array_heap (handleEndCall c m now s) = array_heap s"
  "readyState (handleEndCall c m now s) = readyState s"
  by (simp_all add: handleEndCall_def Let_def split: option.splits)

lemma handleWebRTCSignaling_frame [simp]:
  "clients (handleWebRTCSignaling c m s) = clients s"
  "users (handleWebRTCSignaling c m s) = users s"
  "chatRooms (handleWebRTCSignaling c m s) = chatRooms s"
  "activeCalls (handleWebRTCSignaling c m s) = activeCalls s"
  "user_heap (handleWebRTCSignaling c m s) = user_heap s"
  "array_heap (handleWebRTCSignaling c m s) = array_heap s"
  "readyState (handleWebRTCSignaling c m s) = readyState s"
  by (simp_all add: handleWebRTCSignaling_def fold_frame split: option.splits)

lemma handleTyping_frame [simp]:
  "clients (handleTyping c m s) = clients s"
  "users (handleTyping c m s) = users s"
  "chatRooms (handleTyping c m s) = chatRooms s"
  "activeCalls (handleTyping c m s) = activeCalls s"
  "user_heap (handleTyping c m s) = user_heap s"
  "array_heap (handleTyping c m s) = array_heap s"
  "readyState (handleTyping c m s) = readyState s"
  by (simp_all add: handleTyping_def Let_def split: option.splits)

lemma handleUserStatusChange_frame [simp]:
  "clients (handleUserStatusChange c m now s) = clients s"
  "users (handleUserStatusChange c m now s) = users s"
  "chatRooms (handleUserStatusChange c m now s) = chatRooms s"
  "activeCalls (handleUserStatusChange c m now s) = activeCalls s"
  "array_heap (handleUserStatusChange c m now s) = array_heap s"
  "readyState (handleUserStatusChange c m now s) = readyState s"
  by (simp_all add: handleUserStatusChange_def split: option.splits)

lemma end_calls_of_frame [simp]:
  "clients (end_calls_of c now s) = clients s"
  "users (end_calls_of c now s) = users s"
  "chatRooms (end_calls_of c now s) = chatRooms s"
  "user_heap (end_calls_of c now s) = user_heap s"
  "array_heap (end_calls_of c now s) = array_heap s"
  "readyState (end_calls_of c now s) = readyState s"
  unfolding end_calls_of_def
  by (rule fold_frame, simp add: end_call_step_def split: option.splits)+

lemma leave_rooms_of_frame [simp]:
  "clients (leave_rooms_of c s) = clients s"
  "users (leave_rooms_of c s) = users s"
  "activeCalls (leave_rooms_of c s) = activeCalls s"
  "user_heap (leave_rooms_of c s) = user_heap s"
  "readyState (leave_rooms_of c s) = readyState s"
  unfolding leave_rooms_of_def
  by (rule fold_frame, simp add: leave_step_def split: option.splits)+

lemma handleDisconnect_frame [simp]:
  "users (handleDisconnect c now s) = users s"
  "readyState (handleDisconnect c now s) = readyState s"
  by (simp_all add: handleDisconnect_def Let_def split: option.splits)

lemma handleDisconnect_clients [simp]:
  "clients (handleDisconnect c now s) = AList.delete c (clients s)"
  by (simp add: handleDisconnect_def Let_def split: option.splits)

lemma on_message_readyState [simp]:
  "readyState (on_message c m now g s) = readyState s"
  by (simp add: on_message_def Let_def)

lemma on_connection_readyState [simp]:
  "readyState (on_connection c now s) = (readyState s)(c \<mapsto> OPEN)"
  by (simp add: on_connection_def)

lemma on_close_readyState [simp]:
  "readyState (on_close c now s) = (readyState s)(c \<mapsto> CLOSED)"
  by (simp add: on_close_def)

lemma exec_simps [simp]:
  "exec [] s = s"
  "exec (i # inputs) s = exec inputs (apply_input i s)"
  "exec (xs @ ys) s = exec ys (exec xs s)"
  by (simp_all add: exec_def)

lemma reachable_exec: "reachable s \<Longrightarrow> accepts inputs s \<Longrightarrow> reachable (exec inputs s)"
  by (induction inputs arbitrary: s) (auto intro: reachable_step)

section \<open>What each handler writes\<close>

lemma registers_taken [simp]: "username_taken s (e_username m) \<Longrightarrow> registers s m = None"
  by (simp add: registers_def)

lemma handleUserRegister_effect:
  "clients (handleUserRegister c m now s) =
     (case registers s m of
        None \<Rightarrow> clients s
      | Some avatar \<Rightarrow> AList.update c (length (user_heap s)) (clients s))"
  "users (handleUserRegister c m now s) =
     (case registers s m of
        None \<Rightarrow> users s
      | Some avatar \<Rightarrow> AList.update c (length (user_heap s)) (users s))"
  "user_heap (handleUserRegister c m now s) =
     (case registers s m of
        None \<Rightarrow> user_heap s
      | Some avatar \<Rightarrow> user_heap s @ [new_user c m avatar now])"
  by (simp_all add: handleUserRegister_def registers_def Let_def split: option.splits)

lemma handleUserLogin_effect:
  "clients (handleUserLogin c m now s) =
     (case find (\<lambda>(i, r). strict_eq (u_username (usr s r)) (e_username m)) (users s) of
        None \<Rightarrow> clients s
      | Some (i, r) \<Rightarrow> AList.update c r (clients s))"
  "users (handleUserLogin c m now s) =
     (case find (\<lambda>(i, r). strict_eq (u_username (usr s r)) (e_username m)) (users s) of
        None \<Rightarrow> users s
      | Some (i, r) \<Rightarrow> AList.update c r (AList.delete i (users s)))"
  "user_heap (handleUserLogin c m now s) =
     (case find (\<lambda>(i, r). strict_eq (u_username (usr s r)) (e_username m)) (users s) of
        None \<Rightarrow> user_heap s
      | Some (i, r) \<Rightarrow>
          (user_heap s)[r := (usr s r)\<lparr> u_id := c, u_status := Some ''online'',
                                        u_lastSeen := now \<rparr>])"
  by (simp_all add: handleUserLogin_def Let_def split: option.splits prod.splits)

lemma handleUserStatusChange_effect:
  "user_heap (handleUserStatusChange c m now s) =
     (case map_of (users s) c of
        None \<Rightarrow> user_heap s
      | Some r \<Rightarrow> (user_heap s)[r := (usr s r)\<lparr> u_status := e_status m, u_lastSeen := now \<rparr>])"
  by (simp add: handleUserStatusChange_def split: option.splits)

lemma ensure_room_effect:
  "chatRooms (ensure_room rid name now s) =
     (case map_of (chatRooms s) rid of
        Some _ \<Rightarrow> chatRooms s
      | None \<Rightarrow> AList.update rid
                 \<lparr> r_id = rid, r_name = or_else name (''Room '' @ to_str rid),
                   r_participants = length (array_heap s), r_messages = [], r_createdAt = now \<rparr>
                 (chatRooms s))"
  "array_heap (ensure_room rid name now s) =
     (case map_of (chatRooms s) rid of
        Some _ \<Rightarrow> array_heap s
      | None \<Rightarrow> array_heap s @ [[]])"
  by (simp_all add: ensure_room_def split: option.splits)

lemma handleJoinRoom_chatRooms:
  "chatRooms (handleJoinRoom c m now s) = chatRooms (ensure_room (e_roomId m) (e_roomName m) now s)"
  by (simp add: handleJoinRoom_def Let_def split: option.splits)

lemma handleJoinRoom_array_heap:
  "array_heap (handleJoinRoom c m now s) =
     (let s1 = ensure_room (e_roomId m) (e_roomName m) now s
      in case map_of (chatRooms s1) (e_roomId m) of
           None \<Rightarrow> array_heap s1
         | Some room \<Rightarrow>
             if Some c \<in> set (arr s1 (r_participants room)) then array_heap s1
             else (array_heap s1)[r_participants room := arr s1 (r_participants room) @ [Some c]])"
  by (simp add: handleJoinRoom_def Let_def split: option.splits)

lemma remove_participant_effect:
  "chatRooms (remove_participant c rid room s) =
     AList.update rid (room\<lparr> r_participants := length (array_heap s) \<rparr>) (chatRooms s)"
  "array_heap (remove_participant c rid room s) =
     array_heap s @ [filter (\<lambda>i. i \<noteq> Some c) (arr s (r_participants room))]"
  by (simp_all add: remove_participant_def)

lemma handleLeaveRoom_effect:
  "chatRooms (handleLeaveRoom c m s) =
     (case map_of (chatRooms s) (e_roomId m) of
        None \<Rightarrow> chatRooms s
      | Some room \<Rightarrow>
          AList.update (e_roomId m) (room\<lparr> r_participants := length (array_heap s) \<rparr>)
            (chatRooms s))"
  "array_heap (handleLeaveRoom c m s) =
     (case map_of (chatRooms s) (e_roomId m) of
        None \<Rightarrow> array_heap s
      | Some room \<Rightarrow>
          array_heap s @ [filter (\<lambda>i. i \<noteq> Some c) (arr s (r_participants room))])"
  by (simp_all add: handleLeaveRoom_def remove_participant_effect split: option.splits)

lemma handleSendMessage_chatRooms:
  "chatRooms (handleSendMessage c m now g s) =
     (case map_of (chatRooms s) (e_roomId m) of
        None \<Rightarrow> chatRooms s
      | Some room \<Rightarrow>
          if map_of (clients s) c \<noteq> None \<and> truthy (e_roomId m)
          then AList.update (e_roomId m)
                 (room\<lparr> r_messages := r_messages room @ [messageData c m now g] \<rparr>) (chatRooms s)
          else chatRooms s)"
  by (simp add: handleSendMessage_def split: option.splits)

text \<open>The record \<open>handleInitiateCall\<close> stores, given the reference of its participant array.\<close>

lemma handleInitiateCall_effect:
  "activeCalls (handleInitiateCall c m now k s) =
     AList.update k
       \<lparr> c_id = k, c_initiator = c, c_participants = fst (call_participants c m s),
         c_callType = e_callType m, c_status = Ringing, c_startTime = now,
         c_roomId = e_roomId m, c_answeredBy = None, c_answerTime = None,
         c_rejectedBy = None, c_endTime = None, c_endedBy = None \<rparr>
       (activeCalls s)"
  "array_heap (handleInitiateCall c m now k s) = array_heap (snd (call_participants c m s))"
  by (simp_all add: handleInitiateCall_def Let_def split_beta split: option.splits)

lemma call_participants_effect:
  "fst (call_participants c m s) =
     (if truthy (e_roomId m) then
        (case map_of (chatRooms s) (e_roomId m) of
           Some room \<Rightarrow> r_participants room
         | None \<Rightarrow> length (array_heap s))
      else length (array_heap s))"
  "array_heap (snd (call_participants c m s)) =
     (if truthy (e_roomId m) then
        (case map_of (chatRooms s) (e_roomId m) of
           Some room \<Rightarrow> array_heap s
         | None \<Rightarrow> array_heap s @ [[]])
      else array_heap s @ [[Some c, e_to m]])"
  by (simp_all add: call_participants_def split: option.splits)




lemma on_connection_frame [simp]:
  "clients (on_connection c now s) = clients s"
  "users (on_connection c now s) = users s"
  "chatRooms (on_connection c now s) = chatRooms s"
  "activeCalls (on_connection c now s) = activeCalls s"
  "user_heap (on_connection c now s) = user_heap s"
  "array_heap (on_connection c now s) = array_heap s"
  by (simp_all add: on_connection_def)

lemmas run_defs = apply_input.simps on_message_def Let_def no_fields_def
  register_msg_def join_msg_def room_msg_def direct_msg_def

lemma three_users_state:
  "clients (exec three_users init_state) = [(''A'', 0), (''B'', 1), (''C'', 2)]"
  "users (exec three_users init_state) = [(''A'', 0), (''B'', 1), (''C'', 2)]"
  "chatRooms (exec three_users init_state) = []"
  "activeCalls (exec three_users init_state) = []"
  "array_heap (exec three_users init_state) = []"
  "user_heap (exec three_users init_state) =
     [registered ''A'' ''alice'' ''t1'', registered ''B'' ''bob'' ''t2'',
      registered ''C'' ''carol'' ''t3'']"
  "readyState (exec three_users init_state) = [''A'' \<mapsto> OPEN, ''B'' \<mapsto> OPEN, ''C'' \<mapsto> OPEN]"
  "accepts three_users init_state"
  by (simp_all add: three_users_def run_defs init_state_def handleUserRegister_effect
        username_taken_def strict_eq_def registers_def avatar_or_seed_def registered_def
        new_user_def)

section \<open>Answering, rejecting and ending a call\<close>

lemma new_events_append: "outbox s' c = outbox s c @ evs \<Longrightarrow> new_events s s' c = evs"
  by (simp add: new_events_def)

lemma notify_all_outbox:
  "outbox (notify_all ps ev s) c =
     outbox s c @ replicate (if deliverable s c then count_list ps (Some c) else 0) ev"
proof -
  have "length (filter (\<lambda>p. p = Some c) ps) = count_list ps (Some c)"
    by (induction ps) auto
  then show ?thesis
    using fold_send_outbox [of "\<lambda>_. True" ev ps s c] by (simp add: notify_all_def)
qed

lemma deliverable_activeCalls_update [simp]:
  "deliverable (s\<lparr> activeCalls := x \<rparr>) = deliverable s"
  by (simp add: deliverable_def fun_eq_iff)

lemma handleAnswerCall_found:
  fixes clientId now :: string
  assumes "e_callId msg = Some k" and "map_of (activeCalls s) k = Some call"
  defines "call' \<equiv> call\<lparr> c_status := Active, c_answeredBy := Some clientId, c_answerTime := Some now \<rparr>"
  defines "s' \<equiv> handleAnswerCall clientId msg now s"
  shows "activeCalls s' = AList.update k call' (activeCalls s)"
    and "new_events s s' p =
           replicate (if deliverable s p then count_list (arr s (c_participants call)) (Some p) else 0)
             (CALL_ANSWERED call' (arr s (c_participants call)))"
  using assms by (simp_all add: handleAnswerCall_def Let_def notify_all_outbox new_events_append)

lemma handleRejectCall_found:
  fixes clientId now :: string
  assumes "e_callId msg = Some k" and "map_of (activeCalls s) k = Some call"
  defines "call' \<equiv> call\<lparr> c_status := Rejected, c_rejectedBy := Some clientId, c_endTime := Some now \<rparr>"
  defines "s' \<equiv> handleRejectCall clientId msg now s"
  shows "activeCalls s' = AList.delete k (activeCalls s)"
    and "new_events s s' p =
           replicate (if deliverable s p then count_list (arr s (c_participants call)) (Some p) else 0)
             (CALL_REJECTED call' (arr s (c_participants call)))"
  using assms
  by (simp_all add: handleRejectCall_def Let_def notify_all_outbox new_events_append
        AList.delete_update_same)

lemma handleEndCall_found:
  fixes clientId now :: string
  assumes "e_callId msg = Some k" and "map_of (activeCalls s) k = Some call"
  defines "call' \<equiv> call\<lparr> c_status := Ended, c_endTime := Some now, c_endedBy := Some clientId \<rparr>"
  defines "s' \<equiv> handleEndCall clientId msg now s"
  shows "activeCalls s' = AList.delete k (activeCalls s)"
    and "new_events s s' p =
           replicate (if deliverable s p then count_list (arr s (c_participants call)) (Some p) else 0)
             (CALL_ENDED call' (arr s (c_participants call)))"
  using assms
  by (simp_all add: handleEndCall_def Let_def notify_all_outbox new_events_append
        AList.delete_update_same)

lemma on_message_call_types:
  "on_message c (msg\<lparr> e_type := Some ''ANSWER_CALL'' \<rparr>) now gid s
     = handleAnswerCall c (msg\<lparr> e_type := Some ''ANSWER_CALL'' \<rparr>) now s"
  "on_message c (msg\<lparr> e_type := Some ''REJECT_CALL'' \<rparr>) now gid s
     = handleRejectCall c (msg\<lparr> e_type := Some ''REJECT_CALL'' \<rparr>) now s"
  "on_message c (msg\<lparr> e_type := Some ''END_CALL'' \<rparr>) now gid s
     = handleEndCall c (msg\<lparr> e_type := Some ''END_CALL'' \<rparr>) now s"
  by (simp_all add: on_message_def)

text \<open>
  C9. \<open>handleAnswerCall\<close>, \<open>handleRejectCall\<close> and \<open>handleEndCall\<close> test only that
  \<open>activeCalls\<close> has the call id. Whoever sends the envelope, the call is updated
  (answer: status \<open>active\<close>, \<open>answeredBy\<close> the sender) or removed (reject, end), and
  every deliverable participant is notified; nothing asks whether the sender is one of
  the call's participants.
\<close>

theorem answer_reject_end_ignore_membership:
  assumes "map_of (activeCalls s) k = Some call" and "e_callId msg = Some k"
  shows "(let s' = on_message clientId (msg\<lparr> e_type := Some ''ANSWER_CALL'' \<rparr>) now gid s;
              call' = call\<lparr> c_status := Active, c_answeredBy := Some clientId,
                            c_answerTime := Some now \<rparr>
          in map_of (activeCalls s') k = Some call'
             \<and> (\<forall>p. new_events s s' p =
                    replicate (if deliverable s p
                               then count_list (arr s (c_participants call)) (Some p) else 0)
                      (CALL_ANSWERED call' (arr s (c_participants call)))))
       \<and> (let s' = on_message clientId (msg\<lparr> e_type := Some ''REJECT_CALL'' \<rparr>) now gid s;
              call' = call\<lparr> c_status := Rejected, c_rejectedBy := Some clientId,
                            c_endTime := Some now \<rparr>
          in map_of (activeCalls s') k = None
             \<and> (\<forall>p. new_events s s' p =
                    replicate (if deliverable s p
                               then count_list (arr s (c_participants call)) (Some p) else 0)
                      (CALL_REJECTED call' (arr s (c_participants call)))))
       \<and> (let s' = on_message clientId (msg\<lparr> e_type := Some ''END_CALL'' \<rparr>) now gid s;
              call' = call\<lparr> c_status := Ended, c_endTime := Some now,
                            c_endedBy := Some clientId \<rparr>
          in map_of (activeCalls s') k = None
             \<and> (\<forall>p. new_events s s' p =
                    replicate (if deliverable s p
                               then count_list (arr s (c_participants call)) (Some p) else 0)
                      (CALL_ENDED call' (arr s (c_participants call)))))"
proof -
  let ?a = "msg\<lparr> e_type := Some ''ANSWER_CALL'' \<rparr>"
  let ?r = "msg\<lparr> e_type := Some ''REJECT_CALL'' \<rparr>"
  let ?e = "msg\<lparr> e_type := Some ''END_CALL'' \<rparr>"
  have k: "e_callId ?a = Some k" "e_callId ?r = Some k" "e_callId ?e = Some k"
    using assms(2) by simp_all
  show ?thesis
    unfolding Let_def on_message_call_types
    using handleAnswerCall_found [OF k(1) assms(1)] handleRejectCall_found [OF k(2) assms(1)]
      handleEndCall_found [OF k(3) assms(1)]
    by (simp add: AList.update_conv' AList.delete_conv')
qed

lemma direct_call_facts:
  "map_of (activeCalls direct_call) ''k1'' = Some call_k1"
  "arr direct_call 0 = [Some ''A'', Some ''B'']"
  by (simp_all add: direct_call_def call_k1_def run_defs three_users_state
        handleInitiateCall_effect call_participants_effect)

text \<open>The instance: C answers, rejects or ends the call between A and B.\<close>

theorem answer_reject_end_ignore_membership_witness:
  "map_of (activeCalls direct_call) ''k1'' = Some call_k1
   \<and> Some ''C'' \<notin> set (arr direct_call (c_participants call_k1))
   \<and> map_of (activeCalls (on_message ''C''
          (no_fields\<lparr> e_callId := Some ''k1'', e_type := Some ''ANSWER_CALL'' \<rparr>) ''t5'' ''g5'' direct_call)) ''k1''
       = Some (call_k1\<lparr> c_status := Active, c_answeredBy := Some ''C'', c_answerTime := Some ''t5'' \<rparr>)
   \<and> map_of (activeCalls (on_message ''C''
          (no_fields\<lparr> e_callId := Some ''k1'', e_type := Some ''REJECT_CALL'' \<rparr>) ''t5'' ''g5'' direct_call)) ''k1''
       = None
   \<and> map_of (activeCalls (on_message ''C''
          (no_fields\<lparr> e_callId := Some ''k1'', e_type := Some ''END_CALL'' \<rparr>) ''t5'' ''g5'' direct_call)) ''k1''
       = None"
proof -
  have m: "e_callId (no_fields\<lparr> e_callId := Some ''k1'' \<rparr>) = Some ''k1''"
    by simp
  have p: "Some ''C'' \<notin> set (arr direct_call (c_participants call_k1))"
    by (simp add: direct_call_facts(2) call_k1_def)
  show ?thesis
    using answer_reject_end_ignore_membership [OF direct_call_facts(1) m, of "''C''" "''t5''" "''g5''"] p
    by (simp add: Let_def direct_call_facts(1))
qed

section \<open>Messages and room histories\<close>

lemma deliverable_frame [simp]:
  "deliverable (s\<lparr> chatRooms := x \<rparr>) = deliverable s"
  "deliverable (s\<lparr> array_heap := y \<rparr>) = deliverable s"
  "deliverable (s\<lparr> user_heap := z \<rparr>) = deliverable s"
  "deliverable (s\<lparr> outbox := w \<rparr>) = deliverable s"
  by (simp_all add: deliverable_def fun_eq_iff)

lemma count_filter_eq: "length (filter (\<lambda>p. p = x) ps) = count_list ps x"
  by (induction ps) auto

lemma broadcastToRoom_outbox:
  assumes "map_of (chatRooms s) roomId = Some room"
  shows "outbox (broadcastToRoom roomId ev excludeId s) c =
           outbox s c @ replicate
             (if deliverable s c \<and> \<not> excluded excludeId (Some c)
              then count_list (arr s (r_participants room)) (Some c) else 0) ev"
proof -
  have "length (filter (\<lambda>p. \<not> excluded excludeId p \<and> p = Some c) ps)
          = (if excluded excludeId (Some c) then 0 else count_list ps (Some c))" for ps
    by (induction ps) auto
  then show ?thesis
    using assms fold_send_outbox [of "\<lambda>p. \<not> excluded excludeId p" ev _ s c]
    by (simp add: broadcastToRoom_def)
qed

subsection \<open>Direct messages\<close>

lemma handleSendMessage_direct:
  assumes "map_of (clients s) clientId = Some r" and "\<not> truthy (e_roomId msg)"
    and "truthy (e_to msg)"
  shows "new_events s (handleSendMessage clientId msg now gid s) p =
           (if e_to msg = Some p \<and> deliverable s p
            then [NEW_MESSAGE (messageData clientId msg now gid)] else [])
           @ (if p = clientId then [MESSAGE_SENT (messageData clientId msg now gid)] else [])"
  using assms
  by (auto simp: handleSendMessage_def sendToUser_outbox intro!: new_events_append)

lemma handleSendMessage_neither:
  assumes "\<not> truthy (e_roomId msg)" and "\<not> truthy (e_to msg)"
  shows "handleSendMessage clientId msg now gid s = s"
  using assms by (simp add: handleSendMessage_def split: option.splits)

subsection \<open>Room messages\<close>

lemma handleSendMessage_room:
  assumes "map_of (clients s) clientId = Some r" and "truthy (e_roomId msg)"
    and "map_of (chatRooms s) (e_roomId msg) = Some room"
  shows "chatRooms (handleSendMessage clientId msg now gid s) =
           AList.update (e_roomId msg)
             (room\<lparr> r_messages := r_messages room @ [messageData clientId msg now gid] \<rparr>)
             (chatRooms s)"
    and "new_events s (handleSendMessage clientId msg now gid s) p =
           replicate (if deliverable s p
                      then count_list (room_parts s (e_roomId msg)) (Some p) else 0)
             (NEW_MESSAGE (messageData clientId msg now gid))"
  using assms
  by (simp_all add: handleSendMessage_def broadcastToRoom_outbox AList.update_conv'
        room_parts_def excluded_def new_events_append)

lemma history_after_room_message:
  assumes "map_of (clients s) clientId = Some r" and "truthy (e_roomId msg)"
    and "map_of (chatRooms s) (e_roomId msg) = Some room"
  shows "history (handleSendMessage clientId msg now gid s) (e_roomId msg)
           = history s (e_roomId msg) @ [messageData clientId msg now gid]"
  using assms by (simp add: handleSendMessage_room(1) history_def AList.update_conv')

subsection \<open>Joining a room\<close>

lemma handleJoinRoom_existing:
  assumes "map_of (chatRooms s) (e_roomId msg) = Some room"
    and "map_of (clients s) clientId = Some r"
  shows "new_events s (handleJoinRoom clientId msg now s) clientId =
           [ROOM_JOINED (room\<lparr> r_messages := slice_last 50 (r_messages room) \<rparr>)
              (arr (handleJoinRoom clientId msg now s) (r_participants room))]"
  using assms
  by (auto simp: handleJoinRoom_def ensure_room_def Let_def broadcastToRoom_outbox
        excluded_def intro!: new_events_append)

section \<open>The room scenario\<close>

lemma accepts_append: "accepts (xs @ ys) s = (accepts xs s \<and> accepts ys (exec xs s))"
  by (induction xs arbitrary: s) auto

lemma in_room_state:
  "clients (exec in_room init_state) = [(''A'', 0), (''B'', 1), (''C'', 2)]"
  "chatRooms (exec in_room init_state) = [(Some ''R'', room_R 0)]"
  "array_heap (exec in_room init_state) = [[Some ''A'', Some ''B'', Some ''C'']]"
  "readyState (exec in_room init_state) = [''A'' \<mapsto> OPEN, ''B'' \<mapsto> OPEN, ''C'' \<mapsto> OPEN]"
  "accepts in_room init_state"
  by (simp_all add: in_room_def accepts_append three_users_state room_R_def run_defs
        handleJoinRoom_chatRooms handleJoinRoom_array_heap ensure_room_effect)

lemma posts_state:
  assumes "map_of (clients s) ''A'' = Some r" and "chatRooms s = [(Some ''R'', room)]"
  shows "chatRooms (exec (map (\<lambda>k. Receive ''A'' (room_msg ''R'') ''t7'' (replicate k (CHR ''m''))) ks) s)
           = [(Some ''R'', room\<lparr> r_messages := r_messages room @ map post ks \<rparr>)]
       \<and> clients (exec (map (\<lambda>k. Receive ''A'' (room_msg ''R'') ''t7'' (replicate k (CHR ''m''))) ks) s)
           = clients s
       \<and> array_heap (exec (map (\<lambda>k. Receive ''A'' (room_msg ''R'') ''t7'' (replicate k (CHR ''m''))) ks) s)
           = array_heap s
       \<and> readyState (exec (map (\<lambda>k. Receive ''A'' (room_msg ''R'') ''t7'' (replicate k (CHR ''m''))) ks) s)
           = readyState s"
  using assms
proof (induction ks arbitrary: s room)
  case Nil
  then show ?case by simp
next
  case (Cons k ks)
  let ?t = "on_message ''A'' (room_msg ''R'') ''t7'' (replicate k (CHR ''m'')) s"
  have t: "?t = handleSendMessage ''A'' (room_msg ''R'') ''t7'' (replicate k (CHR ''m'')) s"
    by (simp add: on_message_def room_msg_def no_fields_def)
  have r: "truthy (e_roomId (room_msg ''R''))" "e_roomId (room_msg ''R'') = Some ''R''"
    by (simp_all add: room_msg_def no_fields_def)
  have m: "map_of (chatRooms s) (e_roomId (room_msg ''R'')) = Some room"
    using Cons.prems(2) r(2) by simp
  have c: "chatRooms ?t = [(Some ''R'', room\<lparr> r_messages := r_messages room @ [post k] \<rparr>)]"
    unfolding t using handleSendMessage_room(1) [OF Cons.prems(1) r(1) m]
    by (simp add: Cons.prems(2) r(2) post_def)
  have a: "map_of (clients ?t) ''A'' = Some r"
    unfolding t using Cons.prems(1) by simp
  show ?case using Cons.IH [OF a c] by (simp add: t)
qed

lemma accepts_posts:
  "readyState s ''A'' = Some OPEN \<Longrightarrow> accepts (posts n) s"
proof -
  have "readyState s ''A'' = Some OPEN \<Longrightarrow>
        accepts (map (\<lambda>k. Receive ''A'' (room_msg ''R'') ''t7'' (replicate k (CHR ''m''))) ks) s" for ks
    by (induction ks arbitrary: s) simp_all
  then show "readyState s ''A'' = Some OPEN \<Longrightarrow> accepts (posts n) s"
    by (simp add: posts_def)
qed

lemma after_posts_state:
  "chatRooms (after_posts n) = [(Some ''R'', room_R n)]"
  "clients (after_posts n) = [(''A'', 0), (''B'', 1), (''C'', 2)]"
  "array_heap (after_posts n) = [[Some ''A'', Some ''B'', Some ''C'']]"
  "readyState (after_posts n) = [''A'' \<mapsto> OPEN, ''B'' \<mapsto> OPEN, ''C'' \<mapsto> OPEN]"
  using posts_state [of "exec in_room init_state" 0 "room_R 0" "[0..<n]"]
  by (simp_all add: after_posts_def posts_def in_room_state room_R_def)

lemma after_posts_reachable: "reachable (after_posts n)"
  unfolding after_posts_def
  by (rule reachable_exec [OF reachable_init])
     (simp add: accepts_append in_room_state accepts_posts)

lemma after_posts_step:
  "after_posts (Suc n) =
     on_message ''A'' (room_msg ''R'') ''t7'' (replicate n (CHR ''m'')) (after_posts n)"
  by (simp add: after_posts_def posts_def)

subsection \<open>Stored histories\<close>

lemma history_frame:
  "chatRooms s' = chatRooms s \<Longrightarrow> history s' = history s"
  by (simp add: history_def fun_eq_iff)

lemma handleSendMessage_history:
  "history (handleSendMessage c m now g s) rid =
     history s rid @ (if map_of (clients s) c \<noteq> None \<and> truthy (e_roomId m)
                         \<and> map_of (chatRooms s) (e_roomId m) \<noteq> None \<and> rid = e_roomId m
                      then [messageData c m now g] else [])"
  by (auto simp: handleSendMessage_def history_def AList.update_conv' split: option.splits)

lemma ensure_room_history: "history (ensure_room r n now s) = history s"
  by (auto simp: ensure_room_def history_def fun_eq_iff AList.update_conv' split: option.splits)

lemma handleJoinRoom_history: "history (handleJoinRoom c m now s) = history s"
  using history_frame [OF handleJoinRoom_chatRooms] by (simp add: ensure_room_history)

lemma remove_participant_history:
  "map_of (chatRooms s) r = Some room \<Longrightarrow> history (remove_participant c r room s) = history s"
  by (auto simp: remove_participant_def history_def fun_eq_iff AList.update_conv')

lemma handleLeaveRoom_history: "history (handleLeaveRoom c m s) = history s"
  by (auto simp: handleLeaveRoom_def history_frame [of "broadcastToRoom _ _ _ _"]
        remove_participant_history split: option.splits)

lemma fold_history:
  assumes "\<And>x t. history (f x t) = history t"
  shows "history (fold f xs s) = history s"
  using assms by (induction xs arbitrary: s) simp_all

lemma leave_rooms_of_history: "history (leave_rooms_of c s) = history s"
  unfolding leave_rooms_of_def
  by (rule fold_history)
     (auto simp: leave_step_def history_frame [of "broadcastToRoom _ _ _ _"]
        remove_participant_history split: option.splits)

lemma handleDisconnect_history: "history (handleDisconnect c now s) = history s"
proof -
  have "chatRooms (handleDisconnect c now s) = chatRooms s
        \<or> chatRooms (handleDisconnect c now s)
             = chatRooms (leave_rooms_of c (end_calls_of c now
                 (broadcastToAll (USER_STATUS_UPDATE c (Some ''offline'') (Some now)) (Some c)
                   (s\<lparr> user_heap := (user_heap s)
                        [the (map_of (clients s) c) :=
                           (usr s (the (map_of (clients s) c)))
                             \<lparr> u_status := Some ''offline'', u_lastSeen := now \<rparr>] \<rparr>))))"
    by (simp add: handleDisconnect_def Let_def split: option.splits)
  then show ?thesis
  proof
    assume "chatRooms (handleDisconnect c now s) = chatRooms s"
    then show ?thesis by (rule history_frame)
  next
    assume a: "chatRooms (handleDisconnect c now s)
             = chatRooms (leave_rooms_of c (end_calls_of c now
                 (broadcastToAll (USER_STATUS_UPDATE c (Some ''offline'') (Some now)) (Some c)
                   (s\<lparr> user_heap := (user_heap s)
                        [the (map_of (clients s) c) :=
                           (usr s (the (map_of (clients s) c)))
                             \<lparr> u_status := Some ''offline'', u_lastSeen := now \<rparr>] \<rparr>))))"
    show ?thesis
      unfolding history_frame [OF a] leave_rooms_of_history
      by (rule history_frame) simp
  qed
qed

lemma on_message_history:
  "prefix (history s rid) (history (on_message c m now g s) rid)"
  by (simp add: on_message_def Let_def handleSendMessage_history handleJoinRoom_history
        handleLeaveRoom_history history_frame [of "handleUserRegister _ _ _ _"]
        history_frame [of "handleUserLogin _ _ _ _"] history_frame [of "handleGetUsers _ _"]
        history_frame [of "handleInitiateCall _ _ _ _ _"] history_frame [of "handleAnswerCall _ _ _ _"]
        history_frame [of "handleRejectCall _ _ _ _"] history_frame [of "handleEndCall _ _ _ _"]
        history_frame [of "handleWebRTCSignaling _ _ _"] history_frame [of "handleTyping _ _ _"]
        history_frame [of "handleUserStatusChange _ _ _ _"])

lemma apply_input_history:
  "prefix (history s rid) (history (apply_input i s) rid)"
proof (cases i)
  case (Connect c now)
  then show ?thesis by (simp add: on_connection_def history_def)
next
  case (Receive c m now g)
  then show ?thesis by (simp add: on_message_history)
next
  case (BeginClose c)
  then show ?thesis by (simp add: history_def)
next
  case (Close c now)
  then show ?thesis by (simp add: on_close_def handleDisconnect_history history_def)
qed

lemma exec_history: "prefix (history s rid) (history (exec inputs s) rid)"
proof (induction inputs arbitrary: s)
  case Nil
  then show ?case by simp
next
  case (Cons i inputs)
  show ?case
    using prefix_order.trans [OF apply_input_history Cons.IH] by simp
qed

text \<open>
  C4. Nothing in the source evicts: \<open>handleSendMessage\<close> pushes the message and no
  handler shortens \<open>room.messages\<close>. So an accepted room message makes the stored history
  one entry longer, and whatever the server does next, a stored history stays a prefix of
  the later one. The bound of 50 exists only in the reply to a join (C8).
\<close>

theorem history_only_grows:
  "(map_of (clients s) clientId \<noteq> None \<and> truthy (e_roomId msg)
      \<and> map_of (chatRooms s) (e_roomId msg) \<noteq> None
     \<longrightarrow> history (on_message clientId (msg\<lparr> e_type := Some ''SEND_MESSAGE'' \<rparr>) now gid s)
            (e_roomId msg)
          = history s (e_roomId msg)
            @ [messageData clientId (msg\<lparr> e_type := Some ''SEND_MESSAGE'' \<rparr>) now gid])
   \<and> prefix (history s roomId) (history (exec inputs s) roomId)"
  by (simp add: on_message_def handleSendMessage_history exec_history)

lemma after_posts_51:
  "after_posts 51 =
     on_message ''A'' (room_msg ''R'') ''t7'' (replicate 50 (CHR ''m'')) (after_posts 50)"
  using after_posts_step [of 50] by simp

lemma after_posts_history: "history (after_posts n) (Some ''R'') = map post [0..<n]"
  by (simp add: history_def after_posts_state room_R_def)

theorem history_only_grows_witness:
  "map_of (clients (after_posts 50)) ''A'' \<noteq> None \<and> truthy (e_roomId (room_msg ''R''))
   \<and> map_of (chatRooms (after_posts 50)) (e_roomId (room_msg ''R'')) \<noteq> None
   \<and> history (after_posts 51) (Some ''R'') = history (after_posts 50) (Some ''R'') @ [post 50]
   \<and> prefix (history (after_posts 50) (Some ''R''))
        (history (exec [Close ''A'' ''t8''] (after_posts 50)) (Some ''R''))"
proof -
  have e: "room_msg ''R'' \<lparr> e_type := Some ''SEND_MESSAGE'' \<rparr> = room_msg ''R''"
    "e_roomId (room_msg ''R'') = Some ''R''"
    by (simp_all add: room_msg_def no_fields_def)
  show ?thesis
    using history_only_grows [of "after_posts 50" "''A''" "room_msg ''R''" "''t7''"
        "replicate 50 (CHR ''m'')" "Some ''R''" "[Close ''A'' ''t8'']"]
    by (simp add: e after_posts_state after_posts_51 post_def)
qed

theorem history_exceeds_50_counterexample:
  "reachable (after_posts 50)
   \<and> length (history (after_posts 50) (Some ''R'')) = 50
   \<and> after_posts 51 = apply_input (Receive ''A'' (room_msg ''R'') ''t7'' (replicate 50 (CHR ''m'')))
                        (after_posts 50)
   \<and> length (history (after_posts 51) (Some ''R'')) = 51
   \<and> hd (history (after_posts 51) (Some ''R'')) = hd (history (after_posts 50) (Some ''R''))
   \<and> \<not> length (history (after_posts 51) (Some ''R'')) \<le> 50"
proof -
  have a: "after_posts 51 = apply_input (Receive ''A'' (room_msg ''R'') ''t7'' (replicate 50 (CHR ''m'')))
                        (after_posts 50)"
    by (simp add: after_posts_51)
  have b: "hd (history (after_posts 51) (Some ''R'')) = hd (history (after_posts 50) (Some ''R''))"
    by (simp add: after_posts_history hd_map upt_conv_Cons)
  have c: "length (history (after_posts 50) (Some ''R'')) = 50"
    "length (history (after_posts 51) (Some ''R'')) = 51"
    "\<not> length (history (after_posts 51) (Some ''R'')) \<le> 50"
    by (simp_all add: after_posts_history)
  show ?thesis
    by (intro conjI) (rule after_posts_reachable a b c)+
qed

subsection \<open>The history a join returns\<close>

lemma handleJoinRoom_existing_chatRooms:
  "map_of (chatRooms s) (e_roomId msg) = Some room \<Longrightarrow>
   chatRooms (handleJoinRoom clientId msg now s) = chatRooms s"
  by (simp add: handleJoinRoom_chatRooms ensure_room_def)

lemma handleJoinRoom_unbound:
  assumes "map_of (chatRooms s) (e_roomId msg) = Some room"
    and "map_of (clients s) clientId = None"
  shows "new_events s (handleJoinRoom clientId msg now s) clientId = []"
  using assms
  by (auto simp: handleJoinRoom_def ensure_room_def Let_def broadcastToRoom_outbox
        excluded_def intro!: new_events_append)

lemma with_visitor_state:
  "reachable with_visitor"
  "chatRooms with_visitor = [(Some ''R'', room_R 51)]"
  "clients with_visitor = [(''A'', 0), (''B'', 1), (''C'', 2)]"
  "array_heap with_visitor = [[Some ''A'', Some ''B'', Some ''C'']]"
  "readyState with_visitor ''D'' = Some OPEN"
proof -
  have "enabled (after_posts 51) (Connect ''D'' ''t8'')"
    by (simp add: after_posts_state)
  with after_posts_reachable show "reachable with_visitor"
    unfolding with_visitor_def by (rule reachable_step)
  show "chatRooms with_visitor = [(Some ''R'', room_R 51)]"
    "clients with_visitor = [(''A'', 0), (''B'', 1), (''C'', 2)]"
    "array_heap with_visitor = [[Some ''A'', Some ''B'', Some ''C'']]"
    "readyState with_visitor ''D'' = Some OPEN"
    by (simp_all add: with_visitor_def on_connection_def ws_send_def after_posts_state)
qed

text \<open>
  C8. The room has more than 50 stored messages. A client that is bound in \<open>clients\<close> and
  joins it is sent one \<open>ROOM_JOINED\<close> event, and the history in it is
  \<open>room.messages.slice(-50)\<close>: the last 50 stored messages, in their stored order. A
  connection that is not bound in \<open>clients\<close> is sent nothing: the reply is inside
  \<open>if (client)\<close>.
\<close>

theorem join_returns_last_50:
  assumes "map_of (chatRooms s) (e_roomId msg) = Some room"
    and "50 < length (r_messages room)"
  shows "(let s' = on_message clientId (msg\<lparr> e_type := Some ''JOIN_ROOM'' \<rparr>) now gid s;
              sent = drop (length (r_messages room) - 50) (r_messages room)
          in (map_of (clients s) clientId \<noteq> None \<longrightarrow>
                new_events s s' clientId
                  = [ROOM_JOINED (room\<lparr> r_messages := sent \<rparr>) (room_parts s' (e_roomId msg))])
             \<and> (map_of (clients s) clientId = None \<longrightarrow> new_events s s' clientId = [])
             \<and> length sent = 50
             \<and> suffix sent (history s (e_roomId msg)))"
proof -
  let ?m = "msg\<lparr> e_type := Some ''JOIN_ROOM'' \<rparr>"
  have m: "map_of (chatRooms s) (e_roomId ?m) = Some room"
    using assms(1) by simp
  have j: "on_message clientId ?m now gid s = handleJoinRoom clientId ?m now s"
    by (simp add: on_message_def)
  have p: "room_parts (handleJoinRoom clientId ?m now s) (e_roomId msg)
             = arr (handleJoinRoom clientId ?m now s) (r_participants room)"
    using handleJoinRoom_existing_chatRooms [OF m] assms(1) by (simp add: room_parts_def)
  have b: "new_events s (handleJoinRoom clientId ?m now s) clientId
             = [ROOM_JOINED
                  (room\<lparr> r_messages := drop (length (r_messages room) - 50) (r_messages room) \<rparr>)
                  (arr (handleJoinRoom clientId ?m now s) (r_participants room))]"
    if "map_of (clients s) clientId \<noteq> None"
  proof -
    from that obtain r where "map_of (clients s) clientId = Some r"
      by auto
    from handleJoinRoom_existing [OF m this, of now] show ?thesis
      by (simp add: slice_last_def)
  qed
  have u: "new_events s (handleJoinRoom clientId ?m now s) clientId = []"
    if "map_of (clients s) clientId = None"
    using m that by (rule handleJoinRoom_unbound)
  have l: "length (drop (length (r_messages room) - 50) (r_messages room)) = 50"
    using assms(2) by simp
  have x: "suffix (drop (length (r_messages room) - 50) (r_messages room))
             (history s (e_roomId msg))"
    using assms(1) by (simp add: history_def suffix_drop)
  show ?thesis
    unfolding Let_def j p using b u l x by blast
qed

theorem join_returns_last_50_witness:
  "map_of (chatRooms (after_posts 51)) (e_roomId (join_msg ''R'')) = Some (room_R 51)
   \<and> 50 < length (r_messages (room_R 51))
   \<and> map_of (clients (after_posts 51)) ''B'' \<noteq> None
   \<and> new_events (after_posts 51)
        (on_message ''B'' (join_msg ''R'') ''t9'' ''g9'' (after_posts 51)) ''B''
       = [ROOM_JOINED (room_R 51 \<lparr> r_messages := map post [1..<51] \<rparr>)
            [Some ''A'', Some ''B'', Some ''C'']]
   \<and> map_of (chatRooms with_visitor) (e_roomId (join_msg ''R'')) = Some (room_R 51)
   \<and> map_of (clients with_visitor) ''D'' = None
   \<and> new_events with_visitor
        (on_message ''D'' (join_msg ''R'') ''t9'' ''g9'' with_visitor) ''D'' = []"
proof -
  have e: "join_msg ''R'' \<lparr> e_type := Some ''JOIN_ROOM'' \<rparr> = join_msg ''R''"
    "e_roomId (join_msg ''R'') = Some ''R''"
    by (simp_all add: join_msg_def no_fields_def)
  have h: "map_of (chatRooms (after_posts 51)) (e_roomId (join_msg ''R'')) = Some (room_R 51)"
    "50 < length (r_messages (room_R 51))"
    by (simp_all add: e after_posts_state room_R_def)
  have k: "map_of (clients (after_posts 51)) ''B'' \<noteq> None"
    by (simp add: after_posts_state)
  have c: "chatRooms (on_message ''B'' (join_msg ''R'') ''t9'' ''g9'' (after_posts 51))
             = chatRooms (after_posts 51)"
    using handleJoinRoom_existing_chatRooms [OF h(1)] by (simp add: on_message_def join_msg_def no_fields_def)
  have a: "array_heap (on_message ''B'' (join_msg ''R'') ''t9'' ''g9'' (after_posts 51))
             = [[Some ''A'', Some ''B'', Some ''C'']]"
    by (simp add: on_message_def join_msg_def no_fields_def handleJoinRoom_def ensure_room_def
          after_posts_state Let_def room_R_def)
  have d: "drop (Suc 0) (map post [0..<51]) = map post [Suc 0..<51]"
    by (simp add: drop_map)
  have bound: "new_events (after_posts 51)
        (on_message ''B'' (join_msg ''R'') ''t9'' ''g9'' (after_posts 51)) ''B''
       = [ROOM_JOINED (room_R 51 \<lparr> r_messages := map post [1..<51] \<rparr>)
            [Some ''A'', Some ''B'', Some ''C'']]"
    using join_returns_last_50 [OF h, of "''B''" "''t9''" "''g9''"] k
    by (simp add: e Let_def room_parts_def c a after_posts_state room_R_def d)
  have h': "map_of (chatRooms with_visitor) (e_roomId (join_msg ''R'')) = Some (room_R 51)"
    by (simp add: e with_visitor_state)
  have k': "map_of (clients with_visitor) ''D'' = None"
    by (simp add: with_visitor_state)
  have unbound: "new_events with_visitor
        (on_message ''D'' (join_msg ''R'') ''t9'' ''g9'' with_visitor) ''D'' = []"
    using join_returns_last_50 [OF h' h(2), of "''D''" "''t9''" "''g9''"] k'
    by (simp add: e Let_def)
  show ?thesis
    by (intro conjI) (rule h k bound h' k' unbound)+
qed

text \<open>
  The room R holds 51 messages. D has connected and never registered, so \<open>clients\<close> has
  no entry for it. Its \<open>JOIN_ROOM\<close> is carried out, D is a participant of R afterwards,
  and nothing is sent to D: no \<open>ROOM_JOINED\<close>, no history.
\<close>

theorem unbound_join_no_reply_counterexample:
  "reachable with_visitor
   \<and> length (history with_visitor (Some ''R'')) = 51
   \<and> enabled with_visitor (Receive ''D'' (join_msg ''R'') ''t9'' ''g9'')
   \<and> new_events with_visitor
        (apply_input (Receive ''D'' (join_msg ''R'') ''t9'' ''g9'') with_visitor) ''D'' = []
   \<and> room_parts (apply_input (Receive ''D'' (join_msg ''R'') ''t9'' ''g9'') with_visitor)
        (Some ''R'')
       = [Some ''A'', Some ''B'', Some ''C'', Some ''D'']"
proof -
  have e: "e_roomId (join_msg ''R'') = Some ''R''"
    by (simp add: join_msg_def no_fields_def)
  have j: "apply_input (Receive ''D'' (join_msg ''R'') ''t9'' ''g9'') with_visitor
             = handleJoinRoom ''D'' (join_msg ''R'') ''t9'' with_visitor"
    by (simp add: on_message_def join_msg_def no_fields_def)
  have l: "length (history with_visitor (Some ''R'')) = 51"
    by (simp add: history_def with_visitor_state room_R_def)
  have n: "enabled with_visitor (Receive ''D'' (join_msg ''R'') ''t9'' ''g9'')"
    by (simp add: with_visitor_state)
  have m: "map_of (chatRooms with_visitor) (e_roomId (join_msg ''R'')) = Some (room_R 51)"
    by (simp add: e with_visitor_state)
  have u: "new_events with_visitor
             (apply_input (Receive ''D'' (join_msg ''R'') ''t9'' ''g9'') with_visitor) ''D'' = []"
    unfolding j using m by (rule handleJoinRoom_unbound) (simp add: with_visitor_state)
  have p: "room_parts (apply_input (Receive ''D'' (join_msg ''R'') ''t9'' ''g9'') with_visitor)
             (Some ''R'')
           = [Some ''A'', Some ''B'', Some ''C'', Some ''D'']"
    unfolding j
    by (simp add: room_parts_def handleJoinRoom_chatRooms handleJoinRoom_array_heap
          ensure_room_effect with_visitor_state e room_R_def)
  show ?thesis
    by (intro conjI) (rule with_visitor_state(1) l n u p)+
qed

subsection \<open>Who receives a message\<close>

text \<open>
  C10. The direct branch of \<open>handleSendMessage\<close> runs when \<open>roomId\<close> is falsy and \<open>to\<close> is
  truthy. Then the sender's socket gets \<open>MESSAGE_SENT\<close> with the message data, after the
  attempt to deliver: the recipient gets \<open>NEW_MESSAGE\<close> only when it is deliverable, and
  the confirmation is sent either way.
\<close>

theorem direct_message_confirmed:
  assumes "map_of (clients s) clientId = Some r" and "\<not> truthy (e_roomId msg)"
    and "truthy (e_to msg)"
  shows "(let m = msg\<lparr> e_type := Some ''SEND_MESSAGE'' \<rparr>;
              s' = on_message clientId m now gid s
          in \<forall>p. new_events s s' p =
                 (if e_to msg = Some p \<and> deliverable s p
                  then [NEW_MESSAGE (messageData clientId m now gid)] else [])
                 @ (if p = clientId then [MESSAGE_SENT (messageData clientId m now gid)] else []))"
proof -
  let ?m = "msg\<lparr> e_type := Some ''SEND_MESSAGE'' \<rparr>"
  have "\<not> truthy (e_roomId ?m)" "truthy (e_to ?m)"
    using assms(2,3) by simp_all
  from handleSendMessage_direct [OF assms(1) this] show ?thesis
    by (simp add: on_message_def)
qed

theorem direct_message_confirmed_witness:
  "map_of (clients (exec three_users init_state)) ''A'' = Some 0
   \<and> \<not> truthy (e_roomId (direct_msg ''Z'')) \<and> truthy (e_to (direct_msg ''Z''))
   \<and> \<not> deliverable (exec three_users init_state) ''Z''
   \<and> new_events (exec three_users init_state)
        (on_message ''A'' (direct_msg ''Z'') ''t4'' ''g4'' (exec three_users init_state)) ''A''
       = [MESSAGE_SENT (messageData ''A'' (direct_msg ''Z'') ''t4'' ''g4'')]
   \<and> new_events (exec three_users init_state)
        (on_message ''A'' (direct_msg ''Z'') ''t4'' ''g4'' (exec three_users init_state)) ''Z''
       = []"
proof -
  have e: "direct_msg ''Z'' \<lparr> e_type := Some ''SEND_MESSAGE'' \<rparr> = direct_msg ''Z''"
    "e_roomId (direct_msg ''Z'') = None" "e_to (direct_msg ''Z'') = Some ''Z''"
    by (simp_all add: direct_msg_def no_fields_def)
  have h: "map_of (clients (exec three_users init_state)) ''A'' = Some 0"
    "\<not> truthy (e_roomId (direct_msg ''Z''))" "truthy (e_to (direct_msg ''Z''))"
    by (simp_all add: e three_users_state)
  have d: "\<not> deliverable (exec three_users init_state) ''Z''"
    by (simp add: deliverable_def three_users_state)
  show ?thesis
    using direct_message_confirmed [OF h, of "''t4''" "''g4''"] h d
    by (simp add: e Let_def)
qed

text \<open>As C10 is worded, an envelope that carries \<open>to\<close> is confirmed; one whose \<open>to\<close> is the
  empty string is not: both tests of \<open>handleSendMessage\<close> fail and nothing is sent.\<close>

theorem empty_to_not_confirmed_counterexample:
  "map_of (clients (exec three_users init_state)) ''A'' = Some 0
   \<and> e_type (direct_msg []) = Some ''SEND_MESSAGE''
   \<and> e_to (direct_msg []) = Some [] \<and> e_roomId (direct_msg []) = None
   \<and> on_message ''A'' (direct_msg []) ''t4'' ''g4'' (exec three_users init_state)
       = exec three_users init_state
   \<and> new_events (exec three_users init_state)
        (on_message ''A'' (direct_msg []) ''t4'' ''g4'' (exec three_users init_state)) ''A''
       = []"
proof -
  have e: "e_type (direct_msg []) = Some ''SEND_MESSAGE''"
    "e_to (direct_msg []) = Some []" "e_roomId (direct_msg []) = None"
    by (simp_all add: direct_msg_def no_fields_def)
  have "on_message ''A'' (direct_msg []) ''t4'' ''g4'' (exec three_users init_state)
          = exec three_users init_state"
    using handleSendMessage_neither [of "direct_msg []"] by (simp add: on_message_def e)
  then show ?thesis
    by (simp add: e three_users_state new_events_def)
qed

section \<open>Invariants of the reachable states\<close>

subsection \<open>Association lists\<close>

lemma list_all_update:
  "list_all P al \<Longrightarrow> P (k, v) \<Longrightarrow> list_all P (AList.update k v al)"
  by (induction al) auto

lemma list_all_delete: "list_all P al \<Longrightarrow> list_all P (AList.delete k al)"
  by (simp add: AList.delete_eq list_all_iff)

lemma list_all_mono: "list_all P xs \<Longrightarrow> (\<And>x. x \<in> set xs \<Longrightarrow> P x \<Longrightarrow> Q x) \<Longrightarrow> list_all Q xs"
  by (simp add: list_all_iff)

lemma list_all_map_of: "list_all P al \<Longrightarrow> map_of al k = Some v \<Longrightarrow> P (k, v)"
  by (auto simp: list_all_iff dest: map_of_SomeD)

lemma find_in_set: "find P xs = Some x \<Longrightarrow> x \<in> set xs \<and> P x"
  by (auto simp: find_Some_iff)

subsection \<open>References stay allocated\<close>

lemma refs_okI:
  assumes "list_all (\<lambda>(i, r). r < length (user_heap s)) (users s)"
    and "list_all (\<lambda>(roomId, room). r_participants room < length (array_heap s)) (chatRooms s)"
  shows "refs_ok s"
  using assms by (simp add: refs_ok_def)

lemma refs_ok_users: "refs_ok s \<Longrightarrow> (i, r) \<in> set (users s) \<Longrightarrow> r < length (user_heap s)"
  by (auto simp: refs_ok_def list_all_iff)

lemma refs_ok_room:
  "refs_ok s \<Longrightarrow> map_of (chatRooms s) roomId = Some room \<Longrightarrow>
   r_participants room < length (array_heap s)"
  by (auto simp: refs_ok_def dest: list_all_map_of)

text \<open>A state whose \<open>users\<close>, \<open>chatRooms\<close> and heap sizes are those of a good state is good.\<close>

lemma refs_ok_frame:
  assumes "refs_ok s" and "users s' = users s" and "chatRooms s' = chatRooms s"
    and "length (user_heap s') = length (user_heap s)"
    and "length (array_heap s) \<le> length (array_heap s')"
  shows "refs_ok s'"
  using assms by (auto simp: refs_ok_def list_all_iff)

lemma refs_ok_init: "refs_ok init_state"
  by (simp add: refs_ok_def init_state_def)

lemma refs_ok_handleUserRegister: "refs_ok s \<Longrightarrow> refs_ok (handleUserRegister c m now s)"
  by (cases "registers s m")
     (auto simp: refs_ok_def handleUserRegister_effect intro!: list_all_update
        elim: list_all_mono)

lemma refs_ok_handleUserLogin: "refs_ok s \<Longrightarrow> refs_ok (handleUserLogin c m now s)"
proof (cases "find (\<lambda>(i, r). strict_eq (u_username (usr s r)) (e_username m)) (users s)")
  case None
  assume "refs_ok s"
  then show ?thesis
    by (rule refs_ok_frame) (simp_all add: handleUserLogin_effect None)
next
  case (Some ir)
  obtain i r where ir: "ir = (i, r)" by (cases ir)
  assume a: "refs_ok s"
  have "(i, r) \<in> set (users s)"
    using Some find_in_set unfolding ir by fastforce
  then have r: "r < length (user_heap s)"
    using a by (rule refs_ok_users [rotated])
  have u: "list_all (\<lambda>(i, r). r < length (user_heap s)) (users s)"
    using a by (simp add: refs_ok_def)
  have "list_all (\<lambda>(i, r). r < length (user_heap s)) (AList.update c r (AList.delete i (users s)))"
    by (rule list_all_update [OF list_all_delete [OF u]]) (simp add: r)
  then show ?thesis
    using a by (simp add: refs_ok_def handleUserLogin_effect Some ir)
qed

lemma refs_ok_handleUserStatusChange: "refs_ok s \<Longrightarrow> refs_ok (handleUserStatusChange c m now s)"
  by (erule refs_ok_frame) (simp_all add: handleUserStatusChange_effect split: option.splits)

lemma refs_ok_handleSendMessage: "refs_ok s \<Longrightarrow> refs_ok (handleSendMessage c m now g s)"
  by (auto simp: refs_ok_def handleSendMessage_chatRooms split: option.splits
        intro!: list_all_update dest: list_all_map_of)

lemma refs_ok_ensure_room: "refs_ok s \<Longrightarrow> refs_ok (ensure_room rid name now s)"
  by (auto simp: refs_ok_def ensure_room_def split: option.splits
        intro!: list_all_update elim: list_all_mono)

lemma refs_ok_handleJoinRoom: "refs_ok s \<Longrightarrow> refs_ok (handleJoinRoom c m now s)"
proof -
  assume "refs_ok s"
  then have "refs_ok (ensure_room (e_roomId m) (e_roomName m) now s)"
    by (rule refs_ok_ensure_room)
  then show ?thesis
    by (rule refs_ok_frame)
       (simp_all add: handleJoinRoom_chatRooms handleJoinRoom_array_heap Let_def
          split: option.splits)
qed

lemma refs_ok_remove_participant:
  "refs_ok s \<Longrightarrow> refs_ok (remove_participant c rid room s)"
  by (auto simp: refs_ok_def remove_participant_effect intro!: list_all_update
        elim: list_all_mono)

lemma refs_ok_outbox [simp]:
  "refs_ok (broadcastToRoom rid ev x s) = refs_ok s"
  "refs_ok (broadcastToAll ev x s) = refs_ok s"
  "refs_ok (sendToUser u ev s) = refs_ok s"
  "refs_ok (ws_send c ev s) = refs_ok s"
  by (simp_all add: refs_ok_def)

lemma refs_ok_handleLeaveRoom: "refs_ok s \<Longrightarrow> refs_ok (handleLeaveRoom c m s)"
  by (simp add: handleLeaveRoom_def refs_ok_remove_participant split: option.splits)

lemma refs_ok_handleInitiateCall: "refs_ok s \<Longrightarrow> refs_ok (handleInitiateCall c m now k s)"
  by (erule refs_ok_frame)
     (simp_all add: handleInitiateCall_effect call_participants_effect split: option.splits)

lemma fold_invariant:
  assumes "P s" and "\<And>x t. P t \<Longrightarrow> P (f x t)"
  shows "P (fold f xs s)"
  using assms by (induction xs arbitrary: s) simp_all

lemma refs_ok_leave_rooms_of: "refs_ok s \<Longrightarrow> refs_ok (leave_rooms_of c s)"
  unfolding leave_rooms_of_def
  by (erule fold_invariant)
     (simp add: leave_step_def refs_ok_remove_participant split: option.splits)

lemma refs_ok_handleDisconnect: "refs_ok s \<Longrightarrow> refs_ok (handleDisconnect c now s)"
proof -
  assume a: "refs_ok s"
  have b: "refs_ok (s\<lparr> user_heap := (user_heap s)[r := u] \<rparr>)" for r u
    using a by (rule refs_ok_frame) simp_all
  have c: "refs_ok (end_calls_of c now t) = refs_ok t" for t
    by (simp add: refs_ok_def)
  have d: "refs_ok (t\<lparr> clients := x \<rparr>) = refs_ok t" for t x
    by (simp add: refs_ok_def)
  show ?thesis
    using a by (simp add: handleDisconnect_def Let_def d c b refs_ok_leave_rooms_of
        split: option.splits)
qed

lemma refs_ok_on_message: "refs_ok s \<Longrightarrow> refs_ok (on_message c m now g s)"
  by (simp add: on_message_def Let_def refs_ok_handleUserRegister refs_ok_handleUserLogin
        refs_ok_handleUserStatusChange refs_ok_handleSendMessage refs_ok_handleJoinRoom
        refs_ok_handleLeaveRoom refs_ok_handleInitiateCall
        refs_ok_frame [of s "handleGetUsers _ _"] refs_ok_frame [of s "handleAnswerCall _ _ _ _"]
        refs_ok_frame [of s "handleRejectCall _ _ _ _"] refs_ok_frame [of s "handleEndCall _ _ _ _"]
        refs_ok_frame [of s "handleWebRTCSignaling _ _ _"] refs_ok_frame [of s "handleTyping _ _ _"])

lemma refs_ok_apply_input: "refs_ok s \<Longrightarrow> refs_ok (apply_input i s)"
proof (cases i)
  case (Connect c now)
  assume "refs_ok s"
  then show ?thesis unfolding Connect by (simp add: refs_ok_frame)
next
  case (Receive c m now g)
  assume "refs_ok s"
  then show ?thesis unfolding Receive by (simp add: refs_ok_on_message)
next
  case (BeginClose c)
  assume "refs_ok s"
  then show ?thesis unfolding BeginClose by (simp add: refs_ok_def)
next
  case (Close c now)
  assume "refs_ok s"
  then have "refs_ok (s\<lparr> readyState := (readyState s)(c \<mapsto> CLOSED) \<rparr>)"
    by (simp add: refs_ok_def)
  then show ?thesis unfolding Close by (simp add: on_close_def refs_ok_handleDisconnect)
qed

lemma reachable_refs_ok: "reachable s \<Longrightarrow> refs_ok s"
  by (induction rule: reachable.induct) (simp_all add: refs_ok_init refs_ok_apply_input)

subsection \<open>Usernames\<close>


















subsection \<open>Registering a taken username\<close>










subsection \<open>Call statuses\<close>

lemma calls_live_frame: "activeCalls s' = activeCalls s \<Longrightarrow> calls_live s' = calls_live s"
  by (simp add: calls_live_def)
















subsection \<open>A call started in a room\<close>

lemma handleInitiateCall_in_room:
  assumes "truthy (e_roomId msg)" and "map_of (chatRooms s) (e_roomId msg) = Some room"
  shows "map_of (activeCalls (handleInitiateCall c msg now k s)) k
           = Some \<lparr> c_id = k, c_initiator = c, c_participants = r_participants room,
                    c_callType = e_callType msg, c_status = Ringing, c_startTime = now,
                    c_roomId = e_roomId msg, c_answeredBy = None, c_answerTime = None,
                    c_rejectedBy = None, c_endTime = None, c_endedBy = None \<rparr>"
    and "array_heap (handleInitiateCall c msg now k s) = array_heap s"
  using assms
  by (simp_all add: handleInitiateCall_effect call_participants_effect AList.update_conv')

lemma handleJoinRoom_existing_array:
  assumes "map_of (chatRooms s) (e_roomId msg) = Some room"
    and "r_participants room < length (array_heap s)"
  shows "arr (handleJoinRoom c msg now s) (r_participants room) =
           (if Some c \<in> set (arr s (r_participants room)) then arr s (r_participants room)
            else arr s (r_participants room) @ [Some c])"
    and "length (array_heap (handleJoinRoom c msg now s)) = length (array_heap s)"
  using assms
  by (simp_all add: handleJoinRoom_array_heap ensure_room_def Let_def)

text \<open>
  C1. When \<open>roomId\<close> is truthy (a non-empty string), \<open>handleInitiateCall\<close> stores
  \<open>chatRooms.get(roomId).participants\<close> itself in the call: the room's array, not a copy
  of it. A call started with the non-empty \<open>roomId\<close> of an existing room therefore has
  the room's participants, and for as long as the call and the room hold the same array,
  \<open>handleJoinRoom\<close> pushes a new joiner onto the one array both of them read: the
  joiner is a participant of the call as well. (An empty \<open>roomId\<close> is falsy and takes
  the other branch of the initialiser, \<open>[clientId, to]\<close>.)
\<close>

theorem room_call_shares_participants:
  "(reachable s \<and> truthy (e_roomId msg) \<and> map_of (chatRooms s) (e_roomId msg) \<noteq> None
      \<longrightarrow> shares_array (handleInitiateCall c msg now k s) k (e_roomId msg)
          \<and> call_parts (handleInitiateCall c msg now k s) k = room_parts s (e_roomId msg))
   \<and> (shares_array t k (e_roomId jmsg) \<and> Some j \<notin> set (call_parts t k)
      \<longrightarrow> shares_array (handleJoinRoom j jmsg now' t) k (e_roomId jmsg)
          \<and> call_parts (handleJoinRoom j jmsg now' t) k = call_parts t k @ [Some j]
          \<and> room_parts (handleJoinRoom j jmsg now' t) (e_roomId jmsg) = call_parts t k @ [Some j])"
proof (intro conjI impI; (elim conjE)?)
  assume a: "reachable s" "truthy (e_roomId msg)" "map_of (chatRooms s) (e_roomId msg) \<noteq> None"
  then obtain room where room: "map_of (chatRooms s) (e_roomId msg) = Some room"
    by blast
  have ok: "r_participants room < length (array_heap s)"
    using reachable_refs_ok [OF a(1)] room by (rule refs_ok_room)
  note i = handleInitiateCall_in_room [OF a(2) room, of c now k]
  show "shares_array (handleInitiateCall c msg now k s) k (e_roomId msg)"
    by (simp add: shares_array_def i room ok)
  show "call_parts (handleInitiateCall c msg now k s) k = room_parts s (e_roomId msg)"
    by (simp add: call_parts_def room_parts_def i room)
next
  assume b: "shares_array t k (e_roomId jmsg)" "Some j \<notin> set (call_parts t k)"
  from b(1) obtain call room where
    c: "map_of (activeCalls t) k = Some call" "map_of (chatRooms t) (e_roomId jmsg) = Some room"
       "c_participants call = r_participants room" "r_participants room < length (array_heap t)"
    by (auto simp: shares_array_def split: option.splits)
  have n: "Some j \<notin> set (arr t (r_participants room))"
    using b(2) c(1,3) by (simp add: call_parts_def)
  note e = handleJoinRoom_existing_array [OF c(2,4), of j now']
  have r: "chatRooms (handleJoinRoom j jmsg now' t) = chatRooms t"
    using c(2) by (rule handleJoinRoom_existing_chatRooms)
  show "shares_array (handleJoinRoom j jmsg now' t) k (e_roomId jmsg)"
    by (simp add: shares_array_def c r e(2))
  show "call_parts (handleJoinRoom j jmsg now' t) k = call_parts t k @ [Some j]"
    using n by (simp add: call_parts_def c e(1))
  show "room_parts (handleJoinRoom j jmsg now' t) (e_roomId jmsg) = call_parts t k @ [Some j]"
    using n by (simp add: call_parts_def room_parts_def c r e(1))
qed

lemma before_room_call_state:
  "reachable before_room_call"
  "chatRooms before_room_call = [(Some ''R'', room_R 0)]"
  "array_heap before_room_call = [[Some ''A'', Some ''B'', Some ''C'']]"
  "activeCalls before_room_call = []"
  "readyState before_room_call
     = [''A'' \<mapsto> OPEN, ''B'' \<mapsto> OPEN, ''C'' \<mapsto> OPEN, ''D'' \<mapsto> OPEN]"
  "map_of (users before_room_call) ''D'' = Some 3"
proof -
  show "reachable before_room_call"
    unfolding before_room_call_def
    by (rule reachable_exec [OF reachable_init])
       (simp add: accepts_append in_room_state)
  show "chatRooms before_room_call = [(Some ''R'', room_R 0)]"
    "array_heap before_room_call = [[Some ''A'', Some ''B'', Some ''C'']]"
    "readyState before_room_call
       = [''A'' \<mapsto> OPEN, ''B'' \<mapsto> OPEN, ''C'' \<mapsto> OPEN, ''D'' \<mapsto> OPEN]"
    by (simp_all add: before_room_call_def in_room_state run_defs)
  show "activeCalls before_room_call = []"
    by (simp add: before_room_call_def in_room_def three_users_state run_defs)
  show "map_of (users before_room_call) ''D'' = Some 3"
    by (simp add: before_room_call_def in_room_def three_users_state run_defs
          handleUserRegister_effect username_taken_def strict_eq_def registers_def
          avatar_or_seed_def registered_def new_user_def AList.update_conv')
qed

lemma room_call_state:
  "reachable room_call"
  "room_call = handleInitiateCall ''A'' room_call_msg ''t9'' ''k2'' before_room_call"
  "truthy (e_roomId room_call_msg)" "e_roomId room_call_msg = Some ''R''"
  "map_of (users room_call) ''D'' = Some 3"
  "readyState room_call ''D'' = Some OPEN"
proof -
  have "enabled before_room_call (Receive ''A'' room_call_msg ''t9'' ''k2'')"
    by (simp add: before_room_call_state)
  with before_room_call_state(1) show "reachable room_call"
    unfolding room_call_def by (rule reachable_step)
  show r: "room_call = handleInitiateCall ''A'' room_call_msg ''t9'' ''k2'' before_room_call"
    by (simp add: room_call_def on_message_def room_call_msg_def no_fields_def)
  show "truthy (e_roomId room_call_msg)" "e_roomId room_call_msg = Some ''R''"
    by (simp_all add: room_call_msg_def no_fields_def)
  show "map_of (users room_call) ''D'' = Some 3" "readyState room_call ''D'' = Some OPEN"
    by (simp_all add: r before_room_call_state)
qed

theorem room_call_shares_participants_witness:
  "reachable before_room_call \<and> truthy (e_roomId room_call_msg)
   \<and> map_of (chatRooms before_room_call) (e_roomId room_call_msg) \<noteq> None
   \<and> shares_array room_call ''k2'' (e_roomId (join_msg ''R''))
   \<and> Some ''D'' \<notin> set (call_parts room_call ''k2'')
   \<and> call_parts room_call ''k2'' = [Some ''A'', Some ''B'', Some ''C'']
   \<and> call_parts (handleJoinRoom ''D'' (join_msg ''R'') ''t10'' room_call) ''k2''
       = [Some ''A'', Some ''B'', Some ''C'', Some ''D'']"
proof -
  have j: "e_roomId (join_msg ''R'') = e_roomId room_call_msg"
    by (simp add: join_msg_def room_call_msg_def no_fields_def)
  have h: "map_of (chatRooms before_room_call) (e_roomId room_call_msg) \<noteq> None"
    by (simp add: room_call_state(4) before_room_call_state)
  have p: "room_parts before_room_call (e_roomId room_call_msg)
             = [Some ''A'', Some ''B'', Some ''C'']"
    by (simp add: room_parts_def room_call_state(4) before_room_call_state room_R_def)
  note t = room_call_shares_participants [of before_room_call room_call_msg "''A''" "''t9''"
      "''k2''" room_call "join_msg ''R''" "''D''" "''t10''",
      folded room_call_state(2), unfolded j p]
  from t before_room_call_state(1) room_call_state(3) h
  have a: "shares_array room_call ''k2'' (e_roomId room_call_msg)"
    and b: "call_parts room_call ''k2'' = [Some ''A'', Some ''B'', Some ''C'']"
    by blast+
  have n: "Some ''D'' \<notin> set (call_parts room_call ''k2'')"
    by (simp add: b)
  from t a n have "call_parts (handleJoinRoom ''D'' (join_msg ''R'') ''t10'' room_call) ''k2''
       = call_parts room_call ''k2'' @ [Some ''D'']"
    by blast
  then have c: "call_parts (handleJoinRoom ''D'' (join_msg ''R'') ''t10'' room_call) ''k2''
       = [Some ''A'', Some ''B'', Some ''C'', Some ''D'']"
    by (simp add: b)
  show ?thesis
    unfolding j
    by (intro conjI) (rule before_room_call_state(1) room_call_state(3) h a n b c)+
qed

text \<open>The call \<open>k2\<close> was created with the participants A, B and C. D, a registered
  identity that is not in the room, joins it afterwards, and is a participant of the call.\<close>

theorem later_joiner_added_counterexample:
  "reachable room_call
   \<and> call_parts room_call ''k2'' = [Some ''A'', Some ''B'', Some ''C'']
   \<and> map_of (users room_call) ''D'' = Some 3
   \<and> Some ''D'' \<notin> set (room_parts room_call (Some ''R''))
   \<and> enabled room_call (Receive ''D'' (join_msg ''R'') ''t10'' ''g10'')
   \<and> call_parts (apply_input (Receive ''D'' (join_msg ''R'') ''t10'' ''g10'') room_call) ''k2''
       = [Some ''A'', Some ''B'', Some ''C'', Some ''D'']"
proof -
  have j: "apply_input (Receive ''D'' (join_msg ''R'') ''t10'' ''g10'') room_call
             = handleJoinRoom ''D'' (join_msg ''R'') ''t10'' room_call"
    "e_roomId (join_msg ''R'') = Some ''R''"
    by (simp_all add: on_message_def join_msg_def no_fields_def)
  have r: "chatRooms room_call = [(Some ''R'', room_R 0)]"
    "array_heap room_call = [[Some ''A'', Some ''B'', Some ''C'']]"
    by (simp_all add: room_call_state(2) before_room_call_state
          handleInitiateCall_effect call_participants_effect room_call_state(3,4))
  have k: "map_of (activeCalls room_call) ''k2''
             = Some \<lparr> c_id = ''k2'', c_initiator = ''A'', c_participants = 0,
                    c_callType = e_callType room_call_msg, c_status = Ringing,
                    c_startTime = ''t9'', c_roomId = e_roomId room_call_msg,
                    c_answeredBy = None, c_answerTime = None, c_rejectedBy = None,
                    c_endTime = None, c_endedBy = None \<rparr>"
    unfolding room_call_state(2)
    using handleInitiateCall_in_room(1) [OF room_call_state(3), of before_room_call "room_R 0"]
    by (simp add: room_call_state(4) before_room_call_state room_R_def)
  have m: "map_of (chatRooms room_call) (e_roomId (join_msg ''R'')) = Some (room_R 0)"
    "r_participants (room_R 0) < length (array_heap room_call)"
    by (simp_all add: j r room_R_def)
  have a: "call_parts room_call ''k2'' = [Some ''A'', Some ''B'', Some ''C'']"
    by (simp add: call_parts_def k r)
  have p: "Some ''D'' \<notin> set (room_parts room_call (Some ''R''))"
    by (simp add: room_parts_def r room_R_def)
  have e: "enabled room_call (Receive ''D'' (join_msg ''R'') ''t10'' ''g10'')"
    by (simp add: room_call_state(6))
  have "arr (handleJoinRoom ''D'' (join_msg ''R'') ''t10'' room_call) 0
          = [Some ''A'', Some ''B'', Some ''C'', Some ''D'']"
    using handleJoinRoom_existing_array(1) [OF m, of "''D''" "''t10''"]
    by (simp add: r room_R_def)
  then have c: "call_parts (apply_input (Receive ''D'' (join_msg ''R'') ''t10'' ''g10'') room_call) ''k2''
       = [Some ''A'', Some ''B'', Some ''C'', Some ''D'']"
    unfolding j by (simp add: call_parts_def k)
  show ?thesis
    by (intro conjI) (rule room_call_state(1,5) a p e c)+
qed

subsection \<open>Room membership\<close>

lemma room_parts_frame:
  "chatRooms s' = chatRooms s \<Longrightarrow> array_heap s' = array_heap s \<Longrightarrow>
   room_parts s' = room_parts s"
  by (auto simp: room_parts_def fun_eq_iff split: option.splits)

lemma room_parts_extend:
  assumes "refs_ok s" and "chatRooms s' = chatRooms s"
    and "array_heap s' = array_heap s @ ext"
  shows "room_parts s' = room_parts s"
proof
  fix roomId
  show "room_parts s' roomId = room_parts s roomId"
    using refs_ok_room [OF assms(1), of roomId] assms(2,3)
    by (simp add: room_parts_def nth_append split: option.splits)
qed


lemma room_parts_handleSendMessage: "room_parts (handleSendMessage c m now g s) = room_parts s"
  by (auto simp: room_parts_def fun_eq_iff handleSendMessage_chatRooms AList.update_conv'
        split: option.splits)

lemma room_parts_ensure_room:
  assumes "refs_ok s"
  shows "room_parts (ensure_room rid0 name now s) = room_parts s"
proof
  fix roomId
  show "room_parts (ensure_room rid0 name now s) roomId = room_parts s roomId"
    using refs_ok_room [OF assms, of roomId]
    by (auto simp: room_parts_def ensure_room_def AList.update_conv' nth_append
          split: option.splits)
qed

lemma room_parts_handleJoinRoom:
  assumes "refs_ok s"
  shows "set (room_parts (handleJoinRoom c m now s) roomId)
           \<subseteq> insert (Some c) (set (room_parts s roomId))"
proof -
  let ?s1 = "ensure_room (e_roomId m) (e_roomName m) now s"
  have h: "set (h[a := h ! a @ [x]] ! r) \<subseteq> insert x (set (h ! r))" for h :: "'a list list" and a r x
    by (cases "a < length h") (auto simp: nth_list_update not_less list_update_beyond)
  have "set (room_parts (handleJoinRoom c m now s) roomId)
          \<subseteq> insert (Some c) (set (room_parts ?s1 roomId))"
    using h [of "array_heap ?s1" _ "Some c"]
    by (auto simp: room_parts_def handleJoinRoom_chatRooms handleJoinRoom_array_heap Let_def
          split: option.splits)
  then show ?thesis
    by (simp add: room_parts_ensure_room [OF assms])
qed

lemma room_parts_remove_participant:
  assumes "refs_ok s" and "map_of (chatRooms s) rid0 = Some room"
  shows "room_parts (remove_participant c rid0 room s) roomId =
           (if roomId = rid0 then filter (\<lambda>i. i \<noteq> Some c) (room_parts s roomId)
            else room_parts s roomId)"
  using refs_ok_room [OF assms(1), of roomId] assms(2)
  by (auto simp: room_parts_def remove_participant_effect AList.update_conv' nth_append
        split: option.splits)

lemma room_parts_handleLeaveRoom:
  assumes "refs_ok s"
  shows "room_parts (handleLeaveRoom c m s) roomId =
           (if roomId = e_roomId m then filter (\<lambda>i. i \<noteq> Some c) (room_parts s roomId)
            else room_parts s roomId)"
proof (cases "map_of (chatRooms s) (e_roomId m)")
  case None
  then show ?thesis
    by (simp add: handleLeaveRoom_def room_parts_def)
next
  case (Some room)
  have "room_parts (handleLeaveRoom c m s)
          = room_parts (remove_participant c (e_roomId m) room s)"
    by (rule room_parts_frame) (simp_all add: handleLeaveRoom_def Some)
  then show ?thesis
    by (simp add: room_parts_remove_participant [OF assms Some])
qed

lemma refs_ok_leave_step: "refs_ok t \<Longrightarrow> refs_ok (leave_step c roomId t)"
  by (simp add: leave_step_def refs_ok_remove_participant split: option.splits)

lemma room_parts_leave_step:
  assumes "refs_ok t"
  shows "room_parts (leave_step c rid0 t) roomId =
           (if roomId = rid0 then filter (\<lambda>i. i \<noteq> Some c) (room_parts t roomId)
            else room_parts t roomId)"
proof (cases "map_of (chatRooms t) rid0")
  case None
  then show ?thesis
    by (simp add: leave_step_def room_parts_def)
next
  case (Some room)
  show ?thesis
  proof (cases "Some c \<in> set (arr t (r_participants room))")
    case True
    have "room_parts (leave_step c rid0 t) = room_parts (remove_participant c rid0 room t)"
      by (rule room_parts_frame) (simp_all add: leave_step_def Some True)
    then show ?thesis
      by (simp add: room_parts_remove_participant [OF assms Some])
  next
    case False
    then have "filter (\<lambda>i. i \<noteq> Some c) (arr t (r_participants room)) = arr t (r_participants room)"
      by (auto simp: filter_id_conv)
    then show ?thesis
      using False by (simp add: leave_step_def Some room_parts_def)
  qed
qed

lemma room_parts_fold_leave_step:
  assumes "refs_ok t"
  shows "room_parts (fold (leave_step c) ks t) roomId =
           (if roomId \<in> set ks then filter (\<lambda>i. i \<noteq> Some c) (room_parts t roomId)
            else room_parts t roomId)"
  using assms
proof (induction ks arbitrary: t)
  case Nil
  then show ?case by simp
next
  case (Cons k ks)
  have "refs_ok (leave_step c k t)"
    using Cons.prems by (rule refs_ok_leave_step)
  from Cons.IH [OF this] show ?case
    by (simp add: room_parts_leave_step [OF Cons.prems])
qed

lemma room_parts_leave_rooms_of:
  assumes "refs_ok s"
  shows "room_parts (leave_rooms_of c s) roomId = filter (\<lambda>i. i \<noteq> Some c) (room_parts s roomId)"
proof (cases "roomId \<in> set (map fst (chatRooms s))")
  case True
  then show ?thesis
    by (simp add: leave_rooms_of_def room_parts_fold_leave_step [OF assms])
next
  case False
  then have "map_of (chatRooms s) roomId = None"
    by (simp add: map_of_eq_None_iff)
  then have "room_parts s roomId = []"
    by (simp add: room_parts_def)
  with False show ?thesis
    by (simp add: leave_rooms_of_def room_parts_fold_leave_step [OF assms])
qed

lemma room_parts_handleDisconnect:
  assumes "refs_ok s"
  shows "room_parts (handleDisconnect c now s) roomId =
           (if map_of (clients s) c = None then room_parts s roomId
            else filter (\<lambda>i. i \<noteq> Some c) (room_parts s roomId))"
proof (cases "map_of (clients s) c")
  case None
  have "room_parts (handleDisconnect c now s) = room_parts s"
    by (rule room_parts_frame) (simp_all add: handleDisconnect_def None)
  then show ?thesis by (simp add: None)
next
  case (Some r)
  let ?s3 = "end_calls_of c now
               (broadcastToAll (USER_STATUS_UPDATE c (Some ''offline'') (Some now)) (Some c)
                 (s\<lparr> user_heap := (user_heap s)
                      [r := (usr s r)\<lparr> u_status := Some ''offline'', u_lastSeen := now \<rparr>] \<rparr>))"
  have ok: "refs_ok ?s3"
    using assms by (rule refs_ok_frame) simp_all
  have p: "room_parts ?s3 = room_parts s"
    by (rule room_parts_frame) simp_all
  have "room_parts (handleDisconnect c now s) = room_parts (leave_rooms_of c ?s3)"
    by (rule room_parts_frame) (simp_all add: handleDisconnect_def Let_def Some)
  then show ?thesis
    by (simp add: room_parts_leave_rooms_of [OF ok] p Some)
qed

subsection \<open>Participants that are registered identities are bound\<close>

lemma registered_bound_iff:
  "registered_bound s \<longleftrightarrow>
     (\<forall>c. map_of (users s) c \<noteq> None \<longrightarrow>
           map_of (clients s) c \<noteq> None \<or> readyState s c = Some CLOSED)"
  by (auto simp: registered_bound_def list_all_iff map_of_eq_None_iff)

lemma room_parts_key:
  "x \<in> set (room_parts s roomId) \<Longrightarrow> roomId \<in> fst ` set (chatRooms s)"
  using map_of_eq_None_iff [of "chatRooms s" roomId]
  by (cases "map_of (chatRooms s) roomId") (auto simp: room_parts_def)

lemma closed_unregistered_iff:
  "closed_unregistered s \<longleftrightarrow>
     (\<forall>roomId c. Some c \<in> set (room_parts s roomId) \<and> readyState s c = Some CLOSED
                  \<longrightarrow> map_of (users s) c = None)"
proof
  assume a: "closed_unregistered s"
  show "\<forall>roomId c. Some c \<in> set (room_parts s roomId) \<and> readyState s c = Some CLOSED
                  \<longrightarrow> map_of (users s) c = None"
  proof (intro allI impI)
    fix roomId c
    assume b: "Some c \<in> set (room_parts s roomId) \<and> readyState s c = Some CLOSED"
    then have "roomId \<in> set (map fst (chatRooms s))"
      using room_parts_key by fastforce
    with a b show "map_of (users s) c = None"
      by (fastforce simp: closed_unregistered_def list_all_iff split: option.splits)
  qed
next
  assume "\<forall>roomId c. Some c \<in> set (room_parts s roomId) \<and> readyState s c = Some CLOSED
                  \<longrightarrow> map_of (users s) c = None"
  then show "closed_unregistered s"
    by (auto simp: closed_unregistered_def list_all_iff split: option.splits)
qed

lemma participants_bound_iff:
  "participants_bound s \<longleftrightarrow>
     (\<forall>roomId c. Some c \<in> set (room_parts s roomId) \<and> map_of (users s) c \<noteq> None
                  \<longrightarrow> map_of (clients s) c \<noteq> None)"
proof
  assume a: "participants_bound s"
  show "\<forall>roomId c. Some c \<in> set (room_parts s roomId) \<and> map_of (users s) c \<noteq> None
                  \<longrightarrow> map_of (clients s) c \<noteq> None"
  proof (intro allI impI)
    fix roomId c
    assume b: "Some c \<in> set (room_parts s roomId) \<and> map_of (users s) c \<noteq> None"
    then have "roomId \<in> set (map fst (chatRooms s))"
      using room_parts_key by fastforce
    with a b show "map_of (clients s) c \<noteq> None"
      by (fastforce simp: participants_bound_def list_all_iff split: option.splits)
  qed
next
  assume "\<forall>roomId c. Some c \<in> set (room_parts s roomId) \<and> map_of (users s) c \<noteq> None
                  \<longrightarrow> map_of (clients s) c \<noteq> None"
  then show "participants_bound s"
    by (auto simp: participants_bound_def list_all_iff split: option.splits)
qed

lemma participants_boundI:
  "registered_bound s \<Longrightarrow> closed_unregistered s \<Longrightarrow> participants_bound s"
  unfolding registered_bound_iff closed_unregistered_iff participants_bound_iff
  by metis

text \<open>A handler run for the open connection \<open>c\<close> keeps both facts when it changes no
  ready state, adds nobody but \<open>c\<close> to a room and nobody but \<open>c\<close> to \<open>users\<close>, and leaves
  registered ids bound.\<close>

lemma bound_preserved:
  assumes "registered_bound s" and "closed_unregistered s"
    and "readyState s c = Some OPEN" and "readyState s' = readyState s"
    and "\<And>roomId. set (room_parts s' roomId) \<subseteq> insert (Some c) (set (room_parts s roomId))"
    and "\<And>c'. c' \<noteq> c \<Longrightarrow> map_of (users s') c' \<noteq> None \<Longrightarrow> map_of (users s) c' \<noteq> None"
    and "\<And>c'. map_of (clients s) c' \<noteq> None \<Longrightarrow> map_of (clients s') c' \<noteq> None"
    and "map_of (users s') c \<noteq> None \<Longrightarrow> map_of (clients s') c \<noteq> None"
  shows "registered_bound s' \<and> closed_unregistered s'"
proof
  show "registered_bound s'"
    unfolding registered_bound_iff
  proof (intro allI impI)
    fix c'
    assume u: "map_of (users s') c' \<noteq> None"
    show "map_of (clients s') c' \<noteq> None \<or> readyState s' c' = Some CLOSED"
    proof (cases "c' = c")
      case True
      with u assms(8) show ?thesis by simp
    next
      case False
      from assms(6) [OF False u] assms(1)
      have "map_of (clients s) c' \<noteq> None \<or> readyState s c' = Some CLOSED"
        unfolding registered_bound_iff by blast
      with assms(7) [of c'] assms(4) show ?thesis by auto
    qed
  qed
  show "closed_unregistered s'"
    unfolding closed_unregistered_iff
  proof (intro allI impI)
    fix roomId c'
    assume a: "Some c' \<in> set (room_parts s' roomId) \<and> readyState s' c' = Some CLOSED"
    then have n: "c' \<noteq> c"
      using assms(3,4) by auto
    with a assms(5) [of roomId] have "Some c' \<in> set (room_parts s roomId)"
      by auto
    with a assms(2,4) have "map_of (users s) c' = None"
      unfolding closed_unregistered_iff by auto
    with assms(6) [OF n] show "map_of (users s') c' = None"
      by blast
  qed
qed

lemma bound_preserved_same:
  assumes "registered_bound s" and "closed_unregistered s"
    and "readyState s c = Some OPEN" and "readyState s' = readyState s"
    and "\<And>roomId. set (room_parts s' roomId) \<subseteq> insert (Some c) (set (room_parts s roomId))"
    and "users s' = users s" and "clients s' = clients s"
  shows "registered_bound s' \<and> closed_unregistered s'"
proof (rule bound_preserved [OF assms(1-5)])
  show "map_of (users s') c \<noteq> None \<Longrightarrow> map_of (clients s') c \<noteq> None"
    using assms(1,3) unfolding registered_bound_iff assms(6,7) by fastforce
qed (simp_all add: assms(6,7))

lemma bound_handleUserRegister:
  assumes "registered_bound s" and "closed_unregistered s" and "readyState s c = Some OPEN"
  shows "registered_bound (handleUserRegister c m now s)
         \<and> closed_unregistered (handleUserRegister c m now s)"
proof (rule bound_preserved [OF assms])
  show "readyState (handleUserRegister c m now s) = readyState s"
    by simp
  show "set (room_parts (handleUserRegister c m now s) roomId)
          \<subseteq> insert (Some c) (set (room_parts s roomId))" for roomId
    using room_parts_frame [of "handleUserRegister c m now s" s] by auto
  show "map_of (users (handleUserRegister c m now s)) c' \<noteq> None \<Longrightarrow> map_of (users s) c' \<noteq> None"
    if "c' \<noteq> c" for c'
    using that
    by (simp add: handleUserRegister_effect AList.update_conv' split: if_splits option.splits)
  show "map_of (clients s) c' \<noteq> None \<Longrightarrow> map_of (clients (handleUserRegister c m now s)) c' \<noteq> None"
    for c'
    by (simp add: handleUserRegister_effect AList.update_conv' split: option.splits)
  show "map_of (users (handleUserRegister c m now s)) c \<noteq> None \<Longrightarrow>
        map_of (clients (handleUserRegister c m now s)) c \<noteq> None"
    using assms(1,3) unfolding registered_bound_iff
    by (fastforce simp: handleUserRegister_effect AList.update_conv'
          split: if_splits option.splits)
qed

lemma bound_handleUserLogin:
  assumes "registered_bound s" and "closed_unregistered s" and "readyState s c = Some OPEN"
  shows "registered_bound (handleUserLogin c m now s)
         \<and> closed_unregistered (handleUserLogin c m now s)"
proof (rule bound_preserved [OF assms])
  show "readyState (handleUserLogin c m now s) = readyState s"
    by simp
  show "set (room_parts (handleUserLogin c m now s) roomId)
          \<subseteq> insert (Some c) (set (room_parts s roomId))" for roomId
    using room_parts_frame [of "handleUserLogin c m now s" s] by auto
  show "map_of (users (handleUserLogin c m now s)) c' \<noteq> None \<Longrightarrow> map_of (users s) c' \<noteq> None"
    if "c' \<noteq> c" for c'
    using that
    by (auto simp: handleUserLogin_effect AList.update_conv' AList.delete_conv'
          split: option.splits if_splits)
  show "map_of (clients s) c' \<noteq> None \<Longrightarrow> map_of (clients (handleUserLogin c m now s)) c' \<noteq> None"
    for c'
    by (auto simp: handleUserLogin_effect AList.update_conv' split: option.splits)
  show "map_of (users (handleUserLogin c m now s)) c \<noteq> None \<Longrightarrow>
        map_of (clients (handleUserLogin c m now s)) c \<noteq> None"
    using assms(1,3) unfolding registered_bound_iff
    by (fastforce simp: handleUserLogin_effect AList.update_conv' split: option.splits)
qed

lemma bound_on_message:
  assumes "refs_ok s" and "registered_bound s" and "closed_unregistered s"
    and "readyState s c = Some OPEN"
  shows "registered_bound (on_message c m now g s) \<and> closed_unregistered (on_message c m now g s)"
proof -
  note same = bound_preserved_same [OF assms(2,3,4)]
  have j: "registered_bound (handleJoinRoom c m now s) \<and> closed_unregistered (handleJoinRoom c m now s)"
    by (rule same) (simp_all add: room_parts_handleJoinRoom [OF assms(1)])
  have l: "registered_bound (handleLeaveRoom c m s) \<and> closed_unregistered (handleLeaveRoom c m s)"
    by (rule same) (auto simp: room_parts_handleLeaveRoom [OF assms(1)])
  have i: "registered_bound (handleInitiateCall c m now g s)
           \<and> closed_unregistered (handleInitiateCall c m now g s)"
  proof (rule same)
    have "\<exists>ext. array_heap (handleInitiateCall c m now g s) = array_heap s @ ext"
      by (auto simp: handleInitiateCall_effect call_participants_effect split: option.splits)
    then obtain ext where "array_heap (handleInitiateCall c m now g s) = array_heap s @ ext" ..
    from room_parts_extend [OF assms(1) _ this]
    show "set (room_parts (handleInitiateCall c m now g s) roomId)
            \<subseteq> insert (Some c) (set (room_parts s roomId))" for roomId
      by auto
  qed simp_all
  have s: "registered_bound (handleSendMessage c m now g s)
           \<and> closed_unregistered (handleSendMessage c m now g s)"
    by (rule same) (auto simp: room_parts_handleSendMessage)
  have f: "registered_bound t \<and> closed_unregistered t"
    if "users t = users s" "clients t = clients s" "chatRooms t = chatRooms s"
       "array_heap t = array_heap s" "readyState t = readyState s" for t
    using that room_parts_frame [OF that(3,4)] by (intro same) auto
  show ?thesis
    unfolding on_message_def Let_def
    using j l i s bound_handleUserRegister [OF assms(2,3,4)] bound_handleUserLogin [OF assms(2,3,4)]
      f [of "handleGetUsers c s"] f [of "handleAnswerCall c m now s"]
      f [of "handleRejectCall c m now s"] f [of "handleEndCall c m now s"]
      f [of "handleWebRTCSignaling c m s"] f [of "handleTyping c m s"]
      f [of "handleUserStatusChange c m now s"] assms(2,3)
    by simp
qed

lemma room_parts_readyState [simp]:
  "room_parts (s\<lparr> readyState := x \<rparr>) = room_parts s"
  by (rule room_parts_frame) simp_all

lemma refs_ok_readyState [simp]: "refs_ok (s\<lparr> readyState := x \<rparr>) = refs_ok s"
  by (simp add: refs_ok_def)

lemma bound_on_connection:
  assumes "registered_bound s" and "closed_unregistered s" and "readyState s c = None"
  shows "registered_bound (on_connection c now s) \<and> closed_unregistered (on_connection c now s)"
proof -
  have p: "room_parts (on_connection c now s) = room_parts s"
    by (rule room_parts_frame) simp_all
  show ?thesis
    using assms unfolding registered_bound_iff closed_unregistered_iff p
    by (auto split: if_splits)
qed

lemma bound_begin_close:
  assumes "registered_bound s" and "closed_unregistered s" and "readyState s c = Some OPEN"
  shows "registered_bound (s\<lparr> readyState := (readyState s)(c \<mapsto> CLOSING) \<rparr>)
         \<and> closed_unregistered (s\<lparr> readyState := (readyState s)(c \<mapsto> CLOSING) \<rparr>)"
  using assms unfolding registered_bound_iff closed_unregistered_iff
  by (auto split: if_splits)

lemma bound_on_close:
  assumes "refs_ok s" and "registered_bound s" and "closed_unregistered s"
    and "readyState s c = Some OPEN \<or> readyState s c = Some CLOSING"
  shows "registered_bound (on_close c now s) \<and> closed_unregistered (on_close c now s)"
proof
  let ?s0 = "s\<lparr> readyState := (readyState s)(c \<mapsto> CLOSED) \<rparr>"
  have ok: "refs_ok ?s0"
    using assms(1) by simp
  have p: "room_parts (on_close c now s) roomId =
             (if map_of (clients s) c = None then room_parts s roomId
              else filter (\<lambda>i. i \<noteq> Some c) (room_parts s roomId))" for roomId
    unfolding on_close_def room_parts_handleDisconnect [OF ok] by simp
  have u: "users (on_close c now s) = users s"
    "clients (on_close c now s) = AList.delete c (clients s)"
    by (simp_all add: on_close_def)
  show "registered_bound (on_close c now s)"
    using assms(2) unfolding registered_bound_iff u
    by (auto simp: AList.delete_conv')
  show "closed_unregistered (on_close c now s)"
    unfolding closed_unregistered_iff
  proof (intro allI impI)
    fix roomId c'
    assume a: "Some c' \<in> set (room_parts (on_close c now s) roomId)
               \<and> readyState (on_close c now s) c' = Some CLOSED"
    show "map_of (users (on_close c now s)) c' = None"
    proof (cases "c' = c")
      case False
      with a have "Some c' \<in> set (room_parts s roomId) \<and> readyState s c' = Some CLOSED"
        by (auto simp: p split: if_splits)
      with assms(3) show ?thesis
        unfolding closed_unregistered_iff u by blast
    next
      case True
      with a have "map_of (clients s) c = None"
        by (auto simp: p split: if_splits)
      with assms(2,4) show ?thesis
        unfolding registered_bound_iff u True by auto
    qed
  qed
qed

lemma bound_apply_input:
  assumes "refs_ok s" and "registered_bound s" and "closed_unregistered s" and "enabled s i"
  shows "registered_bound (apply_input i s) \<and> closed_unregistered (apply_input i s)"
proof (cases i)
  case (Connect c now)
  then show ?thesis using assms by (simp add: bound_on_connection)
next
  case (Receive c m now g)
  then show ?thesis using assms by (simp add: bound_on_message)
next
  case (BeginClose c)
  then show ?thesis using assms by (simp add: bound_begin_close)
next
  case (Close c now)
  then show ?thesis using assms by (simp add: bound_on_close)
qed

lemma reachable_bound: "reachable s \<Longrightarrow> registered_bound s \<and> closed_unregistered s"
proof (induction rule: reachable.induct)
  case reachable_init
  show ?case
    by (simp add: registered_bound_def closed_unregistered_def init_state_def)
next
  case (reachable_step s i)
  then show ?case
    using bound_apply_input [OF reachable_refs_ok] by blast
qed

text \<open>
  C7. \<open>handleJoinRoom\<close> never looks at \<open>clients\<close>, and \<open>handleDisconnect\<close> cleans the rooms
  only inside \<open>if (client && client.user)\<close>. What holds in every reachable state is the
  invariant for the registered identities: a participant of a room that is a key of
  \<open>users\<close> is bound in \<open>clients\<close>. And closing a connection that is bound in \<open>clients\<close> takes
  its id out of every room's participant list.
\<close>

theorem registered_participants_bound:
  assumes "reachable s"
  shows "participants_bound s
         \<and> (map_of (clients s) c \<noteq> None \<longrightarrow>
              (\<forall>roomId. Some c \<notin> set (room_parts (apply_input (Close c now) s) roomId)))"
proof
  show "participants_bound s"
    using reachable_bound [OF assms] by (simp add: participants_boundI)
  have ok: "refs_ok (s\<lparr> readyState := (readyState s)(c \<mapsto> CLOSED) \<rparr>)"
    using reachable_refs_ok [OF assms] by simp
  show "map_of (clients s) c \<noteq> None \<longrightarrow>
          (\<forall>roomId. Some c \<notin> set (room_parts (apply_input (Close c now) s) roomId))"
    by (auto simp: on_close_def room_parts_handleDisconnect [OF ok])
qed

theorem registered_participants_bound_witness:
  "reachable (after_posts 0) \<and> participants_bound (after_posts 0)
   \<and> map_of (clients (after_posts 0)) ''A'' \<noteq> None
   \<and> Some ''A'' \<in> set (room_parts (after_posts 0) (Some ''R''))
   \<and> Some ''A'' \<notin> set (room_parts (apply_input (Close ''A'' ''t8'') (after_posts 0)) (Some ''R''))"
proof -
  note t = registered_participants_bound [OF after_posts_reachable, of 0 "''A''" "''t8''"]
  have b: "map_of (clients (after_posts 0)) ''A'' \<noteq> None"
    by (simp add: after_posts_state)
  have m: "Some ''A'' \<in> set (room_parts (after_posts 0) (Some ''R''))"
    by (simp add: room_parts_def after_posts_state room_R_def)
  from t have p: "participants_bound (after_posts 0)" ..
  from t b
  have c: "Some ''A'' \<notin> set (room_parts (apply_input (Close ''A'' ''t8'') (after_posts 0)) (Some ''R''))"
    by blast
  show ?thesis
    by (intro conjI) (rule after_posts_reachable p b m c)+
qed

lemma lurker_state:
  "reachable lurker"
  "clients lurker = []"
  "room_parts lurker (Some ''R'') = [Some ''A'']"
  "readyState lurker ''A'' = Some OPEN"
proof -
  have a: "accepts [Connect ''A'' ''t0'', Receive ''A'' (join_msg ''R'') ''t1'' ''g1''] init_state"
    by (simp add: init_state_def)
  show "reachable lurker"
    unfolding lurker_def by (rule reachable_exec [OF reachable_init a])
  show "clients lurker = []" "readyState lurker ''A'' = Some OPEN"
    by (simp_all add: lurker_def run_defs init_state_def)
  show "room_parts lurker (Some ''R'') = [Some ''A'']"
    by (simp add: lurker_def room_parts_def run_defs init_state_def handleJoinRoom_chatRooms
          handleJoinRoom_array_heap ensure_room_effect)
qed

text \<open>A joins room R without registering: it is a participant and not bound. When its
  connection closes it stays in the participant list.\<close>

theorem unregistered_participant_counterexample:
  "reachable lurker
   \<and> Some ''A'' \<in> set (room_parts lurker (Some ''R''))
   \<and> map_of (clients lurker) ''A'' = None
   \<and> enabled lurker (Close ''A'' ''t2'')
   \<and> reachable (apply_input (Close ''A'' ''t2'') lurker)
   \<and> Some ''A'' \<in> set (room_parts (apply_input (Close ''A'' ''t2'') lurker) (Some ''R''))"
proof -
  have e: "enabled lurker (Close ''A'' ''t2'')"
    by (simp add: lurker_state)
  have r: "reachable (apply_input (Close ''A'' ''t2'') lurker)"
    using lurker_state(1) e by (rule reachable_step)
  have ok: "refs_ok (lurker\<lparr> readyState := (readyState lurker)(''A'' \<mapsto> CLOSED) \<rparr>)"
    using reachable_refs_ok [OF lurker_state(1)] by simp
  have p: "Some ''A'' \<in> set (room_parts (apply_input (Close ''A'' ''t2'') lurker) (Some ''R''))"
    by (simp add: on_close_def room_parts_handleDisconnect [OF ok] lurker_state)
  show ?thesis
    using lurker_state(1) e r p by (simp add: lurker_state)
qed

subsection \<open>No participant is listed twice\<close>

lemma rooms_distinct_iff:
  "rooms_distinct s \<longleftrightarrow> (\<forall>roomId. distinct (room_parts s roomId))"
proof
  assume a: "rooms_distinct s"
  show "\<forall>roomId. distinct (room_parts s roomId)"
  proof
    fix roomId
    show "distinct (room_parts s roomId)"
    proof (cases "map_of (chatRooms s) roomId")
      case None
      then show ?thesis by (simp add: room_parts_def)
    next
      case (Some room)
      then have "roomId \<in> set (map fst (chatRooms s))"
        using map_of_eq_None_iff [of "chatRooms s" roomId] by simp
      with a show ?thesis
        by (auto simp: rooms_distinct_def list_all_iff)
    qed
  qed
next
  assume "\<forall>roomId. distinct (room_parts s roomId)"
  then show "rooms_distinct s"
    by (simp add: rooms_distinct_def list_all_iff)
qed

lemma distinct_handleJoinRoom:
  assumes "refs_ok s" and "distinct (room_parts s roomId)"
  shows "distinct (room_parts (handleJoinRoom c m now s) roomId)"
proof -
  let ?s1 = "ensure_room (e_roomId m) (e_roomName m) now s"
  have d: "distinct (room_parts ?s1 roomId)"
    using assms by (simp add: room_parts_ensure_room)
  have h: "distinct (h[a := h ! a @ [x]] ! r)" if "distinct (h ! r)" "x \<notin> set (h ! a)"
    for h :: "'a list list" and a r x
    using that by (cases "a < length h") (auto simp: nth_list_update not_less list_update_beyond)
  show ?thesis
    using d h [of "array_heap ?s1" _ "Some c"]
    by (auto simp: room_parts_def handleJoinRoom_chatRooms handleJoinRoom_array_heap Let_def
          split: option.splits)
qed

lemma rooms_distinct_on_message:
  assumes "refs_ok s" and "rooms_distinct s"
  shows "rooms_distinct (on_message c m now g s)"
proof -
  note d = assms(2) [unfolded rooms_distinct_iff, rule_format]
  have f: "rooms_distinct t" if "chatRooms t = chatRooms s" "array_heap t = array_heap s" for t
    using assms(2) room_parts_frame [OF that] by (simp add: rooms_distinct_iff)
  have j: "rooms_distinct (handleJoinRoom c m now s)"
    unfolding rooms_distinct_iff using distinct_handleJoinRoom [OF assms(1) d] by blast
  have l: "rooms_distinct (handleLeaveRoom c m s)"
    unfolding rooms_distinct_iff using d by (simp add: room_parts_handleLeaveRoom [OF assms(1)])
  have s: "rooms_distinct (handleSendMessage c m now g s)"
    unfolding rooms_distinct_iff using d by (simp add: room_parts_handleSendMessage)
  have "\<exists>ext. array_heap (handleInitiateCall c m now g s) = array_heap s @ ext"
    by (auto simp: handleInitiateCall_effect call_participants_effect split: option.splits)
  then obtain ext where "array_heap (handleInitiateCall c m now g s) = array_heap s @ ext" ..
  from room_parts_extend [OF assms(1) _ this]
  have i: "rooms_distinct (handleInitiateCall c m now g s)"
    unfolding rooms_distinct_iff using d by simp
  show ?thesis
    unfolding on_message_def Let_def
    using j l s i assms(2) f [of "handleUserRegister c m now s"] f [of "handleUserLogin c m now s"]
      f [of "handleGetUsers c s"] f [of "handleAnswerCall c m now s"]
      f [of "handleRejectCall c m now s"] f [of "handleEndCall c m now s"]
      f [of "handleWebRTCSignaling c m s"] f [of "handleTyping c m s"]
      f [of "handleUserStatusChange c m now s"]
    by simp
qed

lemma rooms_distinct_apply_input:
  assumes "refs_ok s" and "rooms_distinct s"
  shows "rooms_distinct (apply_input i s)"
proof (cases i)
  case (Connect c now)
  have "room_parts (on_connection c now s) = room_parts s"
    by (rule room_parts_frame) simp_all
  with assms(2) show ?thesis
    by (simp add: Connect rooms_distinct_iff)
next
  case (Receive c m now g)
  with assms show ?thesis by (simp add: rooms_distinct_on_message)
next
  case (BeginClose c)
  with assms(2) show ?thesis by (simp add: rooms_distinct_iff)
next
  case (Close c now)
  have ok: "refs_ok (s\<lparr> readyState := (readyState s)(c \<mapsto> CLOSED) \<rparr>)"
    using assms(1) by simp
  show ?thesis
    using assms(2)
    by (simp add: Close on_close_def rooms_distinct_iff room_parts_handleDisconnect [OF ok])
qed

lemma reachable_rooms_distinct: "reachable s \<Longrightarrow> rooms_distinct s"
proof (induction rule: reachable.induct)
  case reachable_init
  show ?case by (simp add: rooms_distinct_def init_state_def)
next
  case (reachable_step s i)
  then show ?case
    by (simp add: rooms_distinct_apply_input reachable_refs_ok)
qed

lemma count_list_distinct_if:
  "distinct xs \<Longrightarrow> count_list xs x = (if x \<in> set xs then 1 else 0)"
  by (induction xs) auto

subsection \<open>Who receives a room message\<close>

text \<open>
  C3. \<open>handleSendMessage\<close> calls \<open>broadcastToRoom\<close> without an \<open>excludeId\<close>, so nobody is
  left out: every deliverable participant gets \<open>NEW_MESSAGE\<close>, once for each time its id
  stands in the room's participant list, and the sender is one of them when it is in the
  room. Participants that are not deliverable, and everybody else, get nothing. In a
  reachable state no id stands twice in a list, so each deliverable participant, the
  sender included, gets exactly one event.
\<close>

theorem room_message_reaches_sender_too:
  assumes "map_of (clients s) clientId = Some r" and "truthy (e_roomId msg)"
    and "map_of (chatRooms s) (e_roomId msg) = Some room"
  shows "(let m = msg\<lparr> e_type := Some ''SEND_MESSAGE'' \<rparr>;
              s' = on_message clientId m now gid s;
              ev = NEW_MESSAGE (messageData clientId m now gid)
          in (\<forall>p. new_events s s' p =
                  replicate (if deliverable s p
                             then count_list (room_parts s (e_roomId msg)) (Some p) else 0) ev)
             \<and> (Some clientId \<in> set (room_parts s (e_roomId msg))
                  \<and> readyState s clientId = Some OPEN
                 \<longrightarrow> ev \<in> set (new_events s s' clientId))
             \<and> (reachable s \<longrightarrow>
                  (\<forall>p. new_events s s' p =
                        (if deliverable s p \<and> Some p \<in> set (room_parts s (e_roomId msg))
                         then [ev] else []))))"
proof -
  let ?m = "msg\<lparr> e_type := Some ''SEND_MESSAGE'' \<rparr>"
  have m: "truthy (e_roomId ?m)" "map_of (chatRooms s) (e_roomId ?m) = Some room"
    using assms(2,3) by simp_all
  have d: "Some clientId \<in> set (room_parts s (e_roomId msg)) \<Longrightarrow>
           readyState s clientId = Some OPEN \<Longrightarrow>
           deliverable s clientId \<and> 0 < count_list (room_parts s (e_roomId msg)) (Some clientId)"
    using assms(1) count_list_0_iff [of "room_parts s (e_roomId msg)" "Some clientId"]
    by (simp add: deliverable_def)
  have o: "count_list (room_parts s (e_roomId msg)) (Some p)
             = (if Some p \<in> set (room_parts s (e_roomId msg)) then 1 else 0)"
    if "reachable s" for p
    using reachable_rooms_distinct [OF that] unfolding rooms_distinct_iff
    by (simp add: count_list_distinct_if)
  show ?thesis
    using handleSendMessage_room(2) [OF assms(1) m, of now gid] d o
    by (auto simp: on_message_def Let_def)
qed

theorem room_message_reaches_sender_too_witness:
  "map_of (clients (after_posts 0)) ''A'' = Some 0 \<and> truthy (e_roomId (room_msg ''R''))
   \<and> map_of (chatRooms (after_posts 0)) (e_roomId (room_msg ''R'')) = Some (room_R 0)
   \<and> Some ''A'' \<in> set (room_parts (after_posts 0) (e_roomId (room_msg ''R'')))
   \<and> readyState (after_posts 0) ''A'' = Some OPEN
   \<and> reachable (after_posts 0) \<and> deliverable (after_posts 0) ''A''
   \<and> NEW_MESSAGE (post 0) \<in> set (new_events (after_posts 0) (after_posts (Suc 0)) ''A'')
   \<and> new_events (after_posts 0) (after_posts (Suc 0)) ''A'' = [NEW_MESSAGE (post 0)]"
proof -
  have e: "room_msg ''R'' \<lparr> e_type := Some ''SEND_MESSAGE'' \<rparr> = room_msg ''R''"
    "e_roomId (room_msg ''R'') = Some ''R''"
    by (simp_all add: room_msg_def no_fields_def)
  have h: "map_of (clients (after_posts 0)) ''A'' = Some 0" "truthy (e_roomId (room_msg ''R''))"
    "map_of (chatRooms (after_posts 0)) (e_roomId (room_msg ''R'')) = Some (room_R 0)"
    by (simp_all add: e after_posts_state)
  have p: "Some ''A'' \<in> set (room_parts (after_posts 0) (e_roomId (room_msg ''R'')))"
    "readyState (after_posts 0) ''A'' = Some OPEN" "deliverable (after_posts 0) ''A''"
    by (simp_all add: e room_parts_def deliverable_def after_posts_state room_R_def)
  have s: "on_message ''A'' (room_msg ''R'') ''t7'' [] (after_posts 0) = after_posts (Suc 0)"
    using after_posts_step [of 0] by simp
  have d: "messageData ''A'' (room_msg ''R'') ''t7'' [] = post 0"
    by (simp add: post_def)
  note t = room_message_reaches_sender_too [OF h, of "''t7''" "[]", unfolded Let_def e s d]
  from t p(1,2)
  have a: "NEW_MESSAGE (post 0) \<in> set (new_events (after_posts 0) (after_posts (Suc 0)) ''A'')"
    unfolding e by blast
  from t after_posts_reachable [of 0]
  have "new_events (after_posts 0) (after_posts (Suc 0)) ''A''
          = (if deliverable (after_posts 0) ''A''
                \<and> Some ''A'' \<in> set (room_parts (after_posts 0) (Some ''R''))
             then [NEW_MESSAGE (post 0)] else [])"
    by blast
  with p have b: "new_events (after_posts 0) (after_posts (Suc 0)) ''A'' = [NEW_MESSAGE (post 0)]"
    unfolding e by simp
  show ?thesis
    by (intro conjI) (rule h p after_posts_reachable a b)+
qed

text \<open>The scenario of the claim: A, B and C are in room R and A posts. A's own socket
  gets the \<open>NEW_MESSAGE\<close> event as B's and C's do.\<close>

theorem sender_not_excluded_counterexample:
  "room_parts (after_posts 0) (Some ''R'') = [Some ''A'', Some ''B'', Some ''C'']
   \<and> after_posts (Suc 0) = apply_input (Receive ''A'' (room_msg ''R'') ''t7'' []) (after_posts 0)
   \<and> new_events (after_posts 0) (after_posts (Suc 0)) ''A'' = [NEW_MESSAGE (post 0)]
   \<and> new_events (after_posts 0) (after_posts (Suc 0)) ''B'' = [NEW_MESSAGE (post 0)]
   \<and> new_events (after_posts 0) (after_posts (Suc 0)) ''C'' = [NEW_MESSAGE (post 0)]"
proof -
  have e: "e_roomId (room_msg ''R'') = Some ''R''"
    by (simp add: room_msg_def no_fields_def)
  have h: "map_of (clients (after_posts 0)) ''A'' = Some 0" "truthy (e_roomId (room_msg ''R''))"
    "map_of (chatRooms (after_posts 0)) (e_roomId (room_msg ''R'')) = Some (room_R 0)"
    by (simp_all add: e after_posts_state)
  have p: "room_parts (after_posts 0) (Some ''R'') = [Some ''A'', Some ''B'', Some ''C'']"
    by (simp add: room_parts_def after_posts_state room_R_def)
  have s: "after_posts (Suc 0) = on_message ''A'' (room_msg ''R'') ''t7'' [] (after_posts 0)"
    using after_posts_step [of 0] by simp
  have t: "on_message ''A'' (room_msg ''R'') ''t7'' [] (after_posts 0)
             = handleSendMessage ''A'' (room_msg ''R'') ''t7'' [] (after_posts 0)"
    by (simp add: on_message_def room_msg_def no_fields_def)
  have n: "new_events (after_posts 0) (after_posts (Suc 0)) c
             = replicate (if deliverable (after_posts 0) c
                          then count_list [Some ''A'', Some ''B'', Some ''C''] (Some c) else 0)
                 (NEW_MESSAGE (post 0))" for c
    unfolding s t using handleSendMessage_room(2) [OF h, of "''t7''" "[]" c]
    by (simp add: e p post_def)
  have a: "after_posts (Suc 0) = apply_input (Receive ''A'' (room_msg ''R'') ''t7'' []) (after_posts 0)"
    by (simp add: s)
  have n3: "new_events (after_posts 0) (after_posts (Suc 0)) ''A'' = [NEW_MESSAGE (post 0)]"
    "new_events (after_posts 0) (after_posts (Suc 0)) ''B'' = [NEW_MESSAGE (post 0)]"
    "new_events (after_posts 0) (after_posts (Suc 0)) ''C'' = [NEW_MESSAGE (post 0)]"
    by (simp_all add: n deliverable_def after_posts_state)
  show ?thesis
    by (intro conjI) (rule p a n3)+
qed

section \<open>The disconnect cascade\<close>

subsection \<open>Sockets only ever get more events\<close>



lemma prefix_sendToUser: "prefix (outbox s p) (outbox (sendToUser u ev s) p)"
  by (simp add: sendToUser_outbox)

lemma prefix_notify_all: "prefix (outbox s p) (outbox (notify_all ps ev s) p)"
  by (simp add: notify_all_outbox)






subsection \<open>The first loop: ending the calls\<close>

lemma end_call_step_frame [simp]:
  "clients (end_call_step c now k t) = clients t"
  "users (end_call_step c now k t) = users t"
  "chatRooms (end_call_step c now k t) = chatRooms t"
  "user_heap (end_call_step c now k t) = user_heap t"
  "array_heap (end_call_step c now k t) = array_heap t"
  "readyState (end_call_step c now k t) = readyState t"
  by (simp_all add: end_call_step_def split: option.splits)





subsection \<open>The second loop: leaving the rooms\<close>

lemma leave_step_frame [simp]:
  "clients (leave_step c r t) = clients t"
  "users (leave_step c r t) = users t"
  "activeCalls (leave_step c r t) = activeCalls t"
  "user_heap (leave_step c r t) = user_heap t"
  "readyState (leave_step c r t) = readyState t"
  by (simp_all add: leave_step_def split: option.splits)




subsection \<open>The handler\<close>







end
